theory Spec2Isabelle
  imports Main "HOL-Library.AList" "HOL-Library.Char_ord" "HOL-Library.List_Lexorder"
begin

section \<open>Values, dictionaries and exceptions\<close>

text \<open>
  The event-stream module \<^verbatim>\<open>holoviews/streams.py\<close> is embedded with explicit state
  passing. Python values that occur as field values and as dictionary keys are \<open>None\<close>,
  integers and strings; floating point numbers are left out.

  A dictionary is an association list with distinct keys; the order of the list is the
  iteration order of the dictionary. Storing under a key (\<^verbatim>\<open>d[k] = v\<close>) is
  \<^const>\<open>AList.update\<close>: it overwrites the value of a key that is present and adds a key
  that is not. \<open>dict_of\<close> is \<^verbatim>\<open>dict(pairs)\<close> and the dictionary comprehension: the
  pairs are stored one after the other, so that the last pair of a key wins.
\<close>

datatype pyval = PyNone | PyInt int | PyStr string

datatype exn = ValueError | TypeError | Exception string

type_synonym pydict = "(pyval \<times> pyval) list"

definition dict_of :: "('k \<times> 'v) list \<Rightarrow> ('k \<times> 'v) list" where
  "dict_of kvs = foldl (\<lambda>d (k, v). AList.update k v d) [] kvs"

section \<open>Preprocessors\<close>

text \<open>
  \<^verbatim>\<open>Preprocessor.__call__\<close> returns its argument. \<^verbatim>\<open>Rename\<close> is built from keyword
  arguments, so the keys of its alias table are strings, and \<^verbatim>\<open>Rename.__call__\<close> is
  \<^verbatim>\<open>{self.mapping.get(k,k):v for (k,v) in params.items()}\<close>. Any other subclass is a
  function from dictionaries to dictionaries.
\<close>

datatype preprocessor =
    Preprocessor
  | Rename "(string \<times> pyval) list"
  | Subclass "pydict \<Rightarrow> pydict"

fun rename_get :: "(string \<times> pyval) list \<Rightarrow> pyval \<Rightarrow> pyval" where
  "rename_get m (PyStr k) = (case map_of m k of Some a \<Rightarrow> a | None \<Rightarrow> PyStr k)"
| "rename_get m k = k"

fun call :: "preprocessor \<Rightarrow> pydict \<Rightarrow> pydict" where
  "call Preprocessor params = params"
| "call (Rename m) params = dict_of (map (\<lambda>(k, v). (rename_get m k, v)) params)"
| "call (Subclass f) params = f params"

section \<open>Parameters, streams and the state\<close>

text \<open>
  The classes of the module derive from \<^verbatim>\<open>param.Parameterized\<close>. The library keeps one
  Parameter object per declaration, on the class: it carries the declared constraint,
  the default and the \<open>constant\<close> flag, and \<^verbatim>\<open>self.params()\<close> is the dictionary from
  field name to these objects. Parameter objects live in a store, addressed by numbers,
  so that instances of one class see the same flags.

  Subscribers are callables, identified by a number; two subscribers are equal exactly
  when they are the same callable. Lists of subscribers and of preprocessors are mutable
  objects held by reference, so they live in a store as well. The default arguments
  \<^verbatim>\<open>subscribers=[]\<close> and \<^verbatim>\<open>preprocessors=[]\<close> of \<^verbatim>\<open>Stream.__init__\<close> are
  evaluated once, when the function is defined: they are the lists at address 0.
\<close>

record parameter =
  accepts :: "pyval \<Rightarrow> bool"
  default_value :: pyval
  is_constant :: bool

record stream =
  params :: "(string \<times> nat) list"
  source :: pyval
  subscribers :: nat
  preprocessors :: nat
  hidden_subscribers :: nat
  mapping :: "(string \<times> pyval) list"
  uuid :: string
  initialized :: bool
  param_values :: "(string \<times> pyval) list"
  attrs :: "(string \<times> pyval) list"

text \<open>
  \<open>calls\<close> is the trace of the subscriber invocations made so far: the subscriber, the
  dictionary it was given, and the exception it raised, if any. \<open>world\<close> is whatever a
  subscriber acts on. \<open>registry\<close> holds the keys of the class-level registry in insertion
  order; the instance registered under a key is the one that carries it as \<open>uuid\<close>.
\<close>

record 'w state =
  parameters :: "nat \<Rightarrow> parameter"
  sub_lists :: "nat \<Rightarrow> nat list"
  pre_lists :: "nat \<Rightarrow> preprocessor list"
  fresh :: nat
  registry :: "string list"
  world :: 'w
  calls :: "(nat \<times> pydict \<times> exn option) list"

type_synonym 'w subscriber_call = "nat \<Rightarrow> pydict \<Rightarrow> 'w \<Rightarrow> exn option \<times> 'w"

definition default_subscribers :: nat where
  "default_subscribers = 0"

definition default_preprocessors :: nat where
  "default_preprocessors = 0"



definition set_constant :: "nat \<Rightarrow> bool \<Rightarrow> 'w state \<Rightarrow> 'w state" where
  "set_constant p c st =
     st\<lparr>parameters := (parameters st)(p := (parameters st p)\<lparr>is_constant := c\<rparr>)\<rparr>"

subsection \<open>The part of the param library that the module calls\<close>

text \<open>
  Modelled from the spec: the \<^verbatim>\<open>param\<close> library is not part of the sources. A field
  has a declared constraint, a default, a current value and a \<open>constant\<close> flag that
  forbids assignment to an initialised instance; \<open>set_param\<close> is the generic setter
  that assigns each keyword in turn and accepts a name that is not a declared field by
  storing it as a plain attribute. \<open>get_param_values\<close> lists the fields with their
  current values, sorted by name. Names that the \<^verbatim>\<open>Stream\<close> class itself defines
  (\<open>stream_attributes\<close>) are not covered by the plain attribute store \<open>attrs\<close>.
\<close>

definition stream_attributes :: "string list" where
  "stream_attributes =
     [''source'', ''subscribers'', ''preprocessors'', ''_hidden_subscribers'', ''mapping'',
      ''uuid'', ''registry'', ''trigger'', ''update'', ''find'', ''value'']"

definition get_value :: "'w state \<Rightarrow> stream \<Rightarrow> string \<Rightarrow> nat \<Rightarrow> pyval" where
  "get_value st s k p =
     (case map_of (param_values s) k of
        Some v \<Rightarrow> v
      | None \<Rightarrow> default_value (parameters st p))"

definition get_param_values :: "'w state \<Rightarrow> stream \<Rightarrow> (string \<times> pyval) list" where
  "get_param_values st s = sort_key fst (map (\<lambda>(k, p). (k, get_value st s k p)) (params s))"

definition setattr :: "'w state \<Rightarrow> stream \<Rightarrow> string \<Rightarrow> pyval \<Rightarrow> exn + stream" where
  "setattr st s k v =
     (case map_of (params s) k of
        None \<Rightarrow> Inr (s\<lparr>attrs := AList.update k v (attrs s)\<rparr>)
      | Some p \<Rightarrow>
          if \<not> accepts (parameters st p) v then Inl ValueError
          else if is_constant (parameters st p) \<and> initialized s then Inl TypeError
          else Inr (s\<lparr>param_values := AList.update k v (param_values s)\<rparr>))"

fun set_param :: "'w state \<Rightarrow> stream \<Rightarrow> (string \<times> pyval) list \<Rightarrow> exn option \<times> stream" where
  "set_param st s [] = (None, s)"
| "set_param st s ((k, v) # kwargs) =
     (case setattr st s k v of
        Inl e \<Rightarrow> (Some e, s)
      | Inr s' \<Rightarrow> set_param st s' kwargs)"

definition Parameterized_init ::
  "'w state \<Rightarrow> stream \<Rightarrow> string \<Rightarrow> (string \<times> pyval) list \<Rightarrow> exn + stream" where
  "Parameterized_init st s name kwargs =
     (let s0 = s\<lparr>initialized := False\<rparr>;
          s1 = s0\<lparr>param_values :=
                 AList.update ''name'' (PyStr name)
                   (map (\<lambda>(k, p). (k, default_value (parameters st p)))
                      (filter (\<lambda>(k, p). k \<noteq> ''name'') (params s0)))\<rparr>
      in case set_param st s1 kwargs of
           (Some e, _) \<Rightarrow> Inl e
         | (None, s2) \<Rightarrow> Inr (s2\<lparr>initialized := True\<rparr>))"

section \<open>The Stream class\<close>

subsection \<open>value\<close>

definition mapping_get :: "(string \<times> pyval) list \<Rightarrow> string \<Rightarrow> pyval" where
  "mapping_get m k = (case map_of m k of Some a \<Rightarrow> a | None \<Rightarrow> PyStr k)"

definition Stream_value :: "'w state \<Rightarrow> stream \<Rightarrow> pydict" where
  "Stream_value st s =
     (let remapped = dict_of (map (\<lambda>(k, v). (mapping_get (mapping s) k, v))
                                (filter (\<lambda>(k, v). k \<noteq> ''name'') (get_param_values st s)))
      in foldl (\<lambda>remapped preprocessor. call preprocessor remapped)
           remapped (pre_lists st (preprocessors s)))"

subsection \<open>trigger\<close>

text \<open>
  The loop \<^verbatim>\<open>for subscriber in subscribers: subscriber(union)\<close>. An exception raised
  by a subscriber leaves the loop and the function.
\<close>

fun notify :: "'w subscriber_call \<Rightarrow> pydict \<Rightarrow> nat list \<Rightarrow> 'w state \<Rightarrow> exn option \<times> 'w state" where
  "notify subscriber_call u [] st = (None, st)"
| "notify subscriber_call u (subscriber # rest) st =
     (case subscriber_call subscriber u (world st) of
        (Some e, w) \<Rightarrow>
          (Some e, st\<lparr>world := w, calls := calls st @ [(subscriber, u, Some e)]\<rparr>)
      | (None, w) \<Rightarrow>
          notify subscriber_call u rest
            (st\<lparr>world := w, calls := calls st @ [(subscriber, u, None)]\<rparr>))"

text \<open>
  \<open>set_iter\<close> is the order in which Python iterates over \<^verbatim>\<open>set(xs)\<close>: the language
  leaves it open, so it is a parameter, and \<open>set_iteration\<close> says what every such order
  satisfies.
\<close>

definition set_iteration :: "(nat list \<Rightarrow> nat list) \<Rightarrow> bool" where
  "set_iteration set_iter \<longleftrightarrow> (\<forall>xs. distinct (set_iter xs) \<and> set (set_iter xs) = set xs)"

definition trigger_union :: "'w state \<Rightarrow> stream list \<Rightarrow> pydict" where
  "trigger_union st streams =
     (let items = map (\<lambda>stream. Stream_value st stream) streams
      in dict_of (concat items))"

definition trigger_subscribers :: "(nat list \<Rightarrow> nat list) \<Rightarrow> 'w state \<Rightarrow> stream list \<Rightarrow> nat list" where
  "trigger_subscribers set_iter st streams =
     (let groups = map (\<lambda>stream. sub_lists st (subscribers stream)
                                   @ sub_lists st (hidden_subscribers stream)) streams
      in set_iter (concat groups))"

definition Stream_trigger ::
  "'w subscriber_call \<Rightarrow> (nat list \<Rightarrow> nat list) \<Rightarrow> stream list \<Rightarrow> 'w state
     \<Rightarrow> exn option \<times> 'w state" where
  "Stream_trigger subscriber_call set_iter streams st =
     (let u = trigger_union st streams;
          subs = trigger_subscribers set_iter st streams
      in notify subscriber_call u subs st)"

subsection \<open>update\<close>

definition Stream_update ::
  "'w subscriber_call \<Rightarrow> (nat list \<Rightarrow> nat list) \<Rightarrow> bool \<Rightarrow> (string \<times> pyval) list
     \<Rightarrow> stream \<Rightarrow> 'w state \<Rightarrow> exn option \<times> stream \<times> 'w state" where
  "Stream_update subscriber_call set_iter trigger kwargs self st =
     (let ps = map snd (params self);
          constants = map (\<lambda>p. is_constant (parameters st p)) ps;
          st1 = foldl (\<lambda>st p. set_constant p False st) st ps
      in case set_param st1 self kwargs of
           (Some e, self') \<Rightarrow> (Some e, self', st1)
         | (None, self') \<Rightarrow>
             let st2 = foldl (\<lambda>st (p, const). set_constant p const st) st1 (zip ps constants)
             in if trigger
                then (case Stream_trigger subscriber_call set_iter [self'] st2 of
                        (r, st3) \<Rightarrow> (r, self', st3))
                else (None, self', st2))"

subsection \<open>The constructor\<close>

text \<open>
  The \<^verbatim>\<open>mapping\<close> argument is a dictionary or some other value, \<open>None\<close> among them.
  An omitted \<^verbatim>\<open>subscribers\<close> or \<^verbatim>\<open>preprocessors\<close> argument is \<open>None\<close> here and stands
  for the default object. The result of \<^verbatim>\<open>uuid.uuid4().hex\<close> and the name that the
  param library generates for the instance are arguments.
\<close>

datatype mapping_arg = MDict "(string \<times> pyval) list" | MValue pyval

definition Stream_init ::
  "(string \<times> nat) list \<Rightarrow> string \<Rightarrow> string \<Rightarrow> mapping_arg \<Rightarrow> pyval \<Rightarrow> nat option \<Rightarrow> nat option
     \<Rightarrow> (string \<times> pyval) list \<Rightarrow> 'w state \<Rightarrow> (exn + stream) \<times> 'w state" where
  "Stream_init cls uuid4 name mapping_a source_a subscribers_a preprocessors_a kwargs st =
     (let h = fresh st;
          st1 = st\<lparr>sub_lists := (sub_lists st)(h := []), fresh := Suc h\<rparr>;
          self = \<lparr>params = cls, source = source_a,
                  subscribers = (case subscribers_a of None \<Rightarrow> default_subscribers | Some a \<Rightarrow> a),
                  preprocessors = (case preprocessors_a of None \<Rightarrow> default_preprocessors | Some a \<Rightarrow> a),
                  hidden_subscribers = h, mapping = [], uuid = [], initialized = False,
                  param_values = [], attrs = []\<rparr>;
          m = (case mapping_a of
                 MValue PyNone \<Rightarrow> Inr []
               | MDict d \<Rightarrow> Inr d
               | MValue v \<Rightarrow>
                   if length (params self) = 2
                   then Inr (dict_of (map (\<lambda>(k, p). (k, v))
                                        (filter (\<lambda>(k, p). k \<noteq> ''name'') (params self))))
                   else Inl (Exception ''Stream has multiple parameters, please supply a dictionary''))
      in case m of
           Inl e \<Rightarrow> (Inl e, st1)
         | Inr m' \<Rightarrow>
             (case Parameterized_init st1 (self\<lparr>mapping := m', uuid := uuid4\<rparr>) name kwargs of
                Inl e \<Rightarrow> (Inl e, st1)
              | Inr self' \<Rightarrow>
                  (Inr self',
                   st1\<lparr>registry := (if uuid4 \<in> set (registry st1) then registry st1
                                     else registry st1 @ [uuid4])\<rparr>)))"

subsection \<open>The declared stream classes\<close>

text \<open>
  \<^verbatim>\<open>name\<close> is the string field that every Parameterized class inherits (Parameter
  object 0). \<^verbatim>\<open>PositionX\<close>, \<^verbatim>\<open>PositionY\<close> and \<^verbatim>\<open>PositionXY\<close> declare
  \<^verbatim>\<open>param.Number(default=0, constant=True)\<close> fields.
\<close>

definition is_number :: "pyval \<Rightarrow> bool" where
  "is_number v = (case v of PyInt _ \<Rightarrow> True | _ \<Rightarrow> False)"

definition is_string_or_none :: "pyval \<Rightarrow> bool" where
  "is_string_or_none v = (case v of PyInt _ \<Rightarrow> False | _ \<Rightarrow> True)"

definition Number :: parameter where
  "Number = \<lparr>accepts = is_number, default_value = PyInt 0, is_constant = True\<rparr>"

definition name_parameter :: parameter where
  "name_parameter = \<lparr>accepts = is_string_or_none, default_value = PyNone, is_constant = True\<rparr>"

definition Stream_params :: "(string \<times> nat) list" where
  "Stream_params = [(''name'', 0)]"

definition PositionX :: "(string \<times> nat) list" where
  "PositionX = [(''name'', 0), (''x'', 1)]"


definition PositionXY :: "(string \<times> nat) list" where
  "PositionXY = [(''name'', 0), (''x'', 3), (''y'', 4)]"

definition module_state :: "'w \<Rightarrow> 'w state" where
  "module_state w =
     \<lparr>parameters = (\<lambda>p. if p = 0 then name_parameter else Number),
      sub_lists = (\<lambda>a. []), pre_lists = (\<lambda>a. []), fresh = 1, registry = [],
      world = w, calls = []\<rparr>"

section \<open>Well-formed dictionaries and the subscribers of a trigger\<close>

text \<open>
  A Python dictionary holds each key once. The preprocessors of the module return
  dictionaries; a preprocessor of another subclass is well formed when it does so too.
\<close>

definition is_dict :: "('k \<times> 'v) list \<Rightarrow> bool" where
  "is_dict d \<longleftrightarrow> distinct (map fst d)"

definition wf_preprocessor :: "preprocessor \<Rightarrow> bool" where
  "wf_preprocessor p \<longleftrightarrow> (\<forall>d. is_dict d \<longrightarrow> is_dict (call p d))"

definition union_of_subscribers :: "'w state \<Rightarrow> stream list \<Rightarrow> nat set" where
  "union_of_subscribers st streams =
     (\<Union>stream \<in> set streams. set (sub_lists st (subscribers stream))
                              \<union> set (sub_lists st (hidden_subscribers stream)))"

section \<open>Auxiliary notions for update and value\<close>

text \<open>
  \<open>declared s\<close> holds of a keyword argument whose name is a declared field of \<open>s\<close>.
  \<open>remapped\<close> is the local variable of that name in \<^verbatim>\<open>Stream.value\<close>, before the loop
  over the preprocessors.
\<close>

definition declared :: "stream \<Rightarrow> string \<times> pyval \<Rightarrow> bool" where
  "declared s = (\<lambda>(k, v). map_of (params s) k \<noteq> None)"

definition remapped :: "'w state \<Rightarrow> stream \<Rightarrow> pydict" where
  "remapped st s = dict_of (map (\<lambda>(k, v). (mapping_get (mapping s) k, v))
                                (filter (\<lambda>(k, v). k \<noteq> ''name'') (get_param_values st s)))"


section \<open>Auxiliary notions for the effects of a pass and of a read\<close>

text \<open>
  \<open>world_after c u subs w\<close> is the world once the subscribers of the list \<open>subs\<close> have been
  applied in turn to the dictionary \<open>u\<close>, starting from the world \<open>w\<close>.

  \<open>Stream_value_read\<close> is the access to the \<^verbatim>\<open>value\<close> property in the style of the other
  operations: it returns the dictionary, the instance and the state after the read. The
  body of the getter (lines 132 to 136) assigns to a local variable only.
\<close>

definition world_after :: "'w subscriber_call \<Rightarrow> pydict \<Rightarrow> nat list \<Rightarrow> 'w \<Rightarrow> 'w" where
  "world_after c u subs w = foldl (\<lambda>w s. snd (c s u w)) w subs"

definition Stream_value_read :: "'w state \<Rightarrow> stream \<Rightarrow> pydict \<times> stream \<times> 'w state" where
  "Stream_value_read st self = (Stream_value st self, self, st)"

section \<open>Auxiliary notions for the constructor\<close>

text \<open>
  \<open>ambiguous_mapping\<close> is the exception that the constructor raises for a scalar
  \<^verbatim>\<open>mapping\<close> on a class that does not have exactly two fields. \<open>init_state\<close> is the
  state after the hidden subscriber list has been allocated, and \<open>init_self\<close> the object
  before its \<^verbatim>\<open>mapping\<close> is assigned.
\<close>

definition ambiguous_mapping :: exn where
  "ambiguous_mapping = Exception ''Stream has multiple parameters, please supply a dictionary''"

definition init_state :: "'w state \<Rightarrow> 'w state" where
  "init_state st = st\<lparr>sub_lists := (sub_lists st)(fresh st := []), fresh := Suc (fresh st)\<rparr>"

definition init_self ::
  "(string \<times> nat) list \<Rightarrow> pyval \<Rightarrow> nat option \<Rightarrow> nat option \<Rightarrow> 'w state \<Rightarrow> stream" where
  "init_self cls source_a subscribers_a preprocessors_a st =
     \<lparr>params = cls, source = source_a,
      subscribers = (case subscribers_a of None \<Rightarrow> default_subscribers | Some a \<Rightarrow> a),
      preprocessors = (case preprocessors_a of None \<Rightarrow> default_preprocessors | Some a \<Rightarrow> a),
      hidden_subscribers = fresh st, mapping = [], uuid = [], initialized = False,
      param_values = [], attrs = []\<rparr>"

section \<open>Example streams\<close>

text \<open>
  Two \<^verbatim>\<open>PositionX\<close> instances with \<open>x = 1\<close> and \<open>x = 2\<close>. Subscriber 7 is registered
  on both, subscriber 8 on the second only. \<open>quiet\<close> subscribers return; under \<open>failing\<close>
  subscriber 7 raises.
\<close>

definition example_A :: stream where
  "example_A =
     \<lparr>params = PositionX, source = PyNone, subscribers = 1, preprocessors = 0,
      hidden_subscribers = 2, mapping = [], uuid = ''a'', initialized = True,
      param_values = [(''x'', PyInt 1), (''name'', PyStr ''PositionX00001'')], attrs = []\<rparr>"

definition example_B :: stream where
  "example_B =
     \<lparr>params = PositionX, source = PyNone, subscribers = 3, preprocessors = 0,
      hidden_subscribers = 4, mapping = [], uuid = ''b'', initialized = True,
      param_values = [(''x'', PyInt 2), (''name'', PyStr ''PositionX00002'')], attrs = []\<rparr>"

definition example_state :: "unit state" where
  "example_state =
     (module_state ())\<lparr>sub_lists := (\<lambda>a. if a = 1 then [7] else if a = 3 then [7, 8] else []),
                        fresh := 5\<rparr>"

definition quiet :: "unit subscriber_call" where
  "quiet s u w = (None, w)"

definition failing :: "unit subscriber_call" where
  "failing s u w = (if s = 7 then (Some (Exception ''boom''), w) else (None, w))"

text \<open>
  Two \<^verbatim>\<open>PositionXY\<close> instances with \<open>x = 1\<close> and \<open>y = 2\<close>, whose \<^verbatim>\<open>mapping\<close> sends
  \<open>x\<close> to \<open>posx\<close>. The first has the preprocessors \<^verbatim>\<open>Rename(posx='a')\<close> and
  \<^verbatim>\<open>Rename(a='b')\<close>, in this order; the second has none. Both have subscriber 7. A
  \<open>recording\<close> subscriber appends its own number and the dictionary it was given to the
  world.
\<close>

definition example_C :: stream where
  "example_C =
     \<lparr>params = PositionXY, source = PyNone, subscribers = 1, preprocessors = 5,
      hidden_subscribers = 2, mapping = [(''x'', PyStr ''posx'')], uuid = ''c'',
      initialized = True,
      param_values = [(''x'', PyInt 1), (''y'', PyInt 2), (''name'', PyStr ''PositionXY00003'')],
      attrs = []\<rparr>"

definition example_D :: stream where
  "example_D =
     \<lparr>params = PositionXY, source = PyNone, subscribers = 1, preprocessors = 0,
      hidden_subscribers = 2, mapping = [(''x'', PyStr ''posx'')], uuid = ''d'',
      initialized = True,
      param_values = [(''x'', PyInt 1), (''y'', PyInt 2), (''name'', PyStr ''PositionXY00004'')],
      attrs = []\<rparr>"

definition recording_state :: "(nat \<times> pydict) list state" where
  "recording_state =
     (module_state [])\<lparr>sub_lists := (\<lambda>a. if a = 1 then [7] else if a = 3 then [7, 8] else []),
                        pre_lists := (\<lambda>a. if a = 5
                                           then [Rename [(''posx'', PyStr ''a'')],
                                                 Rename [(''a'', PyStr ''b'')]]
                                           else []),
                        fresh := 6\<rparr>"

definition recording :: "(nat \<times> pydict) list subscriber_call" where
  "recording s u w = (None, w @ [(s, u)])"

definition recording_then_failing :: "(nat \<times> pydict) list subscriber_call" where
  "recording_then_failing s u w = (if s = 7 then Some (Exception ''boom'') else None, w @ [(s, u)])"

section \<open>Dictionaries\<close>

lemma foldl_update_map_of:
  "map_of (foldl (\<lambda>d (k, v). AList.update k v d) d kvs) = map_of d ++ map_of (rev kvs)"
proof (induction kvs arbitrary: d)
  case Nil
  show ?case by simp
next
  case (Cons kv kvs)
  obtain k v where kv: "kv = (k, v)" by (cases kv)
  have "map_of (AList.update k v d) ++ map_of (rev kvs)
        = map_of d ++ (map_of [(k, v)] ++ map_of (rev kvs))"
    by (simp add: update_conv' fun_eq_iff map_add_def split: option.splits)
  then show ?case using Cons.IH [of "AList.update k v d"] kv by simp
qed

lemma map_of_dict_of: "map_of (dict_of kvs) = map_of (rev kvs)"
  by (simp add: dict_of_def foldl_update_map_of)

lemma foldl_update_distinct:
  "distinct (map fst d) \<Longrightarrow> distinct (map fst (foldl (\<lambda>d (k, v). AList.update k v d) d kvs))"
  by (induction kvs arbitrary: d) (auto simp: distinct_update)

lemma distinct_dict_of: "distinct (map fst (dict_of kvs))"
  by (simp add: dict_of_def foldl_update_distinct)

lemma foldl_update_keys:
  "fst ` set (foldl (\<lambda>d (k, v). AList.update k v d) d kvs) = fst ` set d \<union> fst ` set kvs"
proof (induction kvs arbitrary: d)
  case Nil
  show ?case by simp
next
  case (Cons kv kvs)
  obtain k v where kv: "kv = (k, v)" by (cases kv)
  show ?case using Cons.IH [of "AList.update k v d"] kv by (simp add: dom_update)
qed

lemma keys_dict_of: "fst ` set (dict_of kvs) = fst ` set kvs"
  by (simp add: dict_of_def foldl_update_keys)

lemma update_fresh_key: "k \<notin> fst ` set d \<Longrightarrow> AList.update k v d = d @ [(k, v)]"
  by (induction d) auto

lemma foldl_update_append:
  "distinct (map fst (d @ kvs)) \<Longrightarrow> foldl (\<lambda>d (k, v). AList.update k v d) d kvs = d @ kvs"
proof (induction kvs arbitrary: d)
  case Nil
  show ?case by simp
next
  case (Cons kv kvs)
  obtain k v where kv: "kv = (k, v)" by (cases kv)
  from Cons.prems kv have fresh: "k \<notin> fst ` set d" by auto
  from Cons.prems kv have "distinct (map fst ((d @ [(k, v)]) @ kvs))" by auto
  from Cons.IH [OF this] show ?case using kv fresh by (simp add: update_fresh_key)
qed

lemma dict_of_distinct: "distinct (map fst kvs) \<Longrightarrow> dict_of kvs = kvs"
  using foldl_update_append [of "[]" kvs] by (simp add: dict_of_def)

section \<open>The notification loop and the constant flags\<close>

lemma notify_frame:
  "notify c u subs st = (r, st') \<Longrightarrow>
     parameters st' = parameters st \<and> sub_lists st' = sub_lists st \<and> pre_lists st' = pre_lists st
     \<and> fresh st' = fresh st \<and> registry st' = registry st"
proof (induction subs arbitrary: st)
  case Nil
  then show ?case by simp
next
  case (Cons s subs)
  obtain o' w where cw: "c s u (world st) = (o', w)" by (cases "c s u (world st)")
  show ?case
  proof (cases o')
    case None
    with Cons.prems cw
    have "notify c u subs (st\<lparr>world := w, calls := calls st @ [(s, u, None)]\<rparr>) = (r, st')"
      by simp
    from Cons.IH [OF this] show ?thesis by simp
  next
    case (Some e)
    with Cons.prems cw show ?thesis by auto
  qed
qed

lemma notify_returns:
  "notify c u subs st = (None, st') \<Longrightarrow>
     calls st' = calls st @ map (\<lambda>s. (s, u, None)) subs"
proof (induction subs arbitrary: st)
  case Nil
  then show ?case by simp
next
  case (Cons s subs)
  obtain o' w where cw: "c s u (world st) = (o', w)" by (cases "c s u (world st)")
  show ?case
  proof (cases o')
    case None
    with Cons.prems cw
    have "notify c u subs (st\<lparr>world := w, calls := calls st @ [(s, u, None)]\<rparr>) = (None, st')"
      by simp
    from Cons.IH [OF this] show ?thesis by simp
  next
    case (Some e)
    with Cons.prems cw show ?thesis by simp
  qed
qed

lemma notify_raises:
  "notify c u subs st = (Some e, st') \<Longrightarrow>
     \<exists>pre s post. subs = pre @ s # post
       \<and> calls st' = calls st @ map (\<lambda>s. (s, u, None)) pre @ [(s, u, Some e)]"
proof (induction subs arbitrary: st)
  case Nil
  then show ?case by simp
next
  case (Cons s subs)
  obtain o' w where cw: "c s u (world st) = (o', w)" by (cases "c s u (world st)")
  show ?case
  proof (cases o')
    case None
    with Cons.prems cw
    have "notify c u subs (st\<lparr>world := w, calls := calls st @ [(s, u, None)]\<rparr>) = (Some e, st')"
      by simp
    from Cons.IH [OF this] obtain pre s' post where
      "subs = pre @ s' # post"
      "calls st' = (calls st @ [(s, u, None)]) @ map (\<lambda>s. (s, u, None)) pre @ [(s', u, Some e)]"
      by auto
    then have "s # subs = (s # pre) @ s' # post
       \<and> calls st' = calls st @ map (\<lambda>s. (s, u, None)) (s # pre) @ [(s', u, Some e)]"
      by simp
    then show ?thesis by blast
  next
    case (Some e')
    with Cons.prems cw have "s # subs = [] @ s # subs
      \<and> calls st' = calls st @ map (\<lambda>s. (s, u, None)) [] @ [(s, u, Some e)]"
      by auto
    then show ?thesis by blast
  qed
qed

lemma world_after_Cons:
  "world_after c u (s # subs) w = world_after c u subs (snd (c s u w))"
  by (simp add: world_after_def)

lemma notify_trace:
  "notify c u subs st = (r, st') \<Longrightarrow>
     \<exists>n \<le> length subs.
        calls st' = calls st @ map (\<lambda>i. (subs ! i, u,
                       fst (c (subs ! i) u (world_after c u (take i subs) (world st))))) [0..<n]
      \<and> world st' = world_after c u (take n subs) (world st)
      \<and> (r = None \<longrightarrow> n = length subs)"
proof (induction subs arbitrary: st)
  case Nil
  then show ?case by (simp add: world_after_def)
next
  case (Cons s subs)
  obtain out w where cw: "c s u (world st) = (out, w)" by (cases "c s u (world st)")
  show ?case
  proof (cases out)
    case (Some e)
    with Cons.prems cw
    have "calls st' = calls st @ map (\<lambda>i. ((s # subs) ! i, u,
                fst (c ((s # subs) ! i) u (world_after c u (take i (s # subs)) (world st))))) [0..<1]
      \<and> world st' = world_after c u (take 1 (s # subs)) (world st)
      \<and> (r = None \<longrightarrow> 1 = length (s # subs))"
      by (auto simp: world_after_def)
    moreover have "1 \<le> length (s # subs)" by simp
    ultimately show ?thesis by blast
  next
    case None
    let ?st = "st\<lparr>world := w, calls := calls st @ [(s, u, None)]\<rparr>"
    from Cons.prems cw None have "notify c u subs ?st = (r, st')" by simp
    from Cons.IH [OF this] obtain n where n: "n \<le> length subs"
      and c1: "calls st' = (calls st @ [(s, u, None)]) @ map (\<lambda>i. (subs ! i, u,
                       fst (c (subs ! i) u (world_after c u (take i subs) w)))) [0..<n]"
      and w1: "world st' = world_after c u (take n subs) w"
      and r1: "r = None \<longrightarrow> n = length subs"
      by auto
    have w: "w = snd (c s u (world st))" and o: "fst (c s u (world st)) = None"
      using cw None by simp_all
    have "calls st' = calls st @ map (\<lambda>i. ((s # subs) ! i, u,
                fst (c ((s # subs) ! i) u (world_after c u (take i (s # subs)) (world st)))))
                  [0..<Suc n]"
      unfolding c1 map_upt_Suc by (simp add: world_after_Cons w) (simp add: world_after_def o)
    moreover have "world st' = world_after c u (take (Suc n) (s # subs)) (world st)"
      by (simp add: w1 world_after_Cons w)
    moreover have "r = None \<longrightarrow> Suc n = length (s # subs)" using r1 by simp
    moreover have "Suc n \<le> length (s # subs)" using n by simp
    ultimately show ?thesis by blast
  qed
qed

lemma set_constant_fold:
  "foldl (\<lambda>st (p, c). set_constant p c st) st pcs =
     st\<lparr>parameters := foldl (\<lambda>f (p, c). f(p := (f p)\<lparr>is_constant := c\<rparr>)) (parameters st) pcs\<rparr>"
proof (induction pcs arbitrary: st)
  case Nil
  show ?case by simp
next
  case (Cons pc pcs)
  obtain p c where pc: "pc = (p, c)" by (cases pc)
  show ?case using Cons.IH [of "set_constant p c st"] pc by (simp add: set_constant_def)
qed

lemma lift_fold:
  "foldl (\<lambda>st p. set_constant p False st) st ps =
     foldl (\<lambda>st (p, c). set_constant p c st) st (map (\<lambda>p. (p, False)) ps)"
  by (simp add: foldl_map)

lemma flags_lifted:
  "foldl (\<lambda>f (p, c). f(p := (f p)\<lparr>is_constant := c\<rparr>)) f (map (\<lambda>p. (p, False)) ps) q =
     (if q \<in> set ps then (f q)\<lparr>is_constant := False\<rparr> else f q)"
  by (induction ps arbitrary: f) auto

lemma flags_restored:
  assumes "\<forall>(p, c) \<in> set pcs. c = is_constant (f0 p)"
    and "\<forall>q. f q = f0 q \<or> (q \<in> fst ` set pcs \<and> (\<exists>b. f q = (f0 q)\<lparr>is_constant := b\<rparr>))"
  shows "foldl (\<lambda>f (p, c). f(p := (f p)\<lparr>is_constant := c\<rparr>)) f pcs = f0"
  using assms
proof (induction pcs arbitrary: f)
  case Nil
  then show ?case by (simp add: fun_eq_iff)
next
  case (Cons pc pcs)
  obtain p c where pc: "pc = (p, c)" by (cases pc)
  let ?f = "f(p := (f p)\<lparr>is_constant := c\<rparr>)"
  from Cons.prems(1) pc have c: "c = is_constant (f0 p)" by simp
  have 1: "\<forall>(p, c) \<in> set pcs. c = is_constant (f0 p)" using Cons.prems(1) by simp
  have 2: "\<forall>q. ?f q = f0 q \<or> (q \<in> fst ` set pcs \<and> (\<exists>b. ?f q = (f0 q)\<lparr>is_constant := b\<rparr>))"
  proof
    fix q
    show "?f q = f0 q \<or> (q \<in> fst ` set pcs \<and> (\<exists>b. ?f q = (f0 q)\<lparr>is_constant := b\<rparr>))"
    proof (cases "q = p")
      case True
      from Cons.prems(2) have "f p = f0 p \<or> (\<exists>b. f p = (f0 p)\<lparr>is_constant := b\<rparr>)" by blast
      then have "?f p = f0 p" using c by auto
      with True show ?thesis by simp
    next
      case False
      with Cons.prems(2) pc show ?thesis by auto
    qed
  qed
  from Cons.IH [OF 1 2] pc show ?case by simp
qed

lemma update_flags_roundtrip:
  "foldl (\<lambda>st (p, const). set_constant p const st)
           (foldl (\<lambda>st p. set_constant p False st) st ps)
           (zip ps (map (\<lambda>p. is_constant (parameters st p)) ps)) = st"
proof -
  let ?pcs = "zip ps (map (\<lambda>p. is_constant (parameters st p)) ps)"
  let ?f1 = "foldl (\<lambda>f (p, c). f(p := (f p)\<lparr>is_constant := c\<rparr>)) (parameters st) (map (\<lambda>p. (p, False)) ps)"
  have st1: "foldl (\<lambda>st p. set_constant p False st) st ps = st\<lparr>parameters := ?f1\<rparr>"
    by (simp only: lift_fold set_constant_fold)
  have a: "\<forall>(p, c) \<in> set ?pcs. c = is_constant (parameters st p)"
    by (auto simp: set_zip)
  have keys: "fst ` set ?pcs = set ps"
  proof -
    have "map fst ?pcs = ps" by (simp add: map_fst_zip)
    then have "set (map fst ?pcs) = set ps" by simp
    then show ?thesis by (simp only: set_map)
  qed
  have b: "\<forall>q. ?f1 q = parameters st q
            \<or> (q \<in> fst ` set ?pcs \<and> (\<exists>b. ?f1 q = (parameters st q)\<lparr>is_constant := b\<rparr>))"
    unfolding keys by (auto simp: flags_lifted)
  have "foldl (\<lambda>f (p, c). f(p := (f p)\<lparr>is_constant := c\<rparr>)) ?f1 ?pcs = parameters st"
    by (rule flags_restored [OF a b])
  then show ?thesis
    by (simp add: st1 set_constant_fold)
qed

section \<open>The merged dictionary\<close>

lemma wf_Preprocessor: "wf_preprocessor Preprocessor"
  by (simp add: wf_preprocessor_def)

lemma wf_Rename: "wf_preprocessor (Rename m)"
  by (simp add: wf_preprocessor_def is_dict_def distinct_dict_of)

lemma is_dict_foldl_call:
  "is_dict d \<Longrightarrow> \<forall>p \<in> set ps. wf_preprocessor p \<Longrightarrow>
     is_dict (foldl (\<lambda>remapped preprocessor. call preprocessor remapped) d ps)"
  by (induction ps arbitrary: d) (auto simp: wf_preprocessor_def)

lemma is_dict_Stream_value:
  "\<forall>p \<in> set (pre_lists st (preprocessors s)). wf_preprocessor p \<Longrightarrow> is_dict (Stream_value st s)"
  unfolding Stream_value_def Let_def
  by (rule is_dict_foldl_call) (simp_all add: is_dict_def distinct_dict_of)

lemma map_of_rev_dict: "is_dict d \<Longrightarrow> map_of (rev d) = map_of d"
  unfolding is_dict_def
  by (rule map_of_inject_set [THEN iffD2]) (simp_all add: rev_map [symmetric])

lemma map_of_rev_concat:
  "map_of (rev (concat ds)) = foldl (++) Map.empty (map (\<lambda>d. map_of (rev d)) ds)"
proof (induction ds rule: rev_induct)
  case Nil
  show ?case by simp
next
  case (snoc d ds)
  then show ?case by (simp add: rev_concat)
qed

lemma trigger_union_lookup:
  assumes "\<forall>stream \<in> set streams. \<forall>p \<in> set (pre_lists st (preprocessors stream)). wf_preprocessor p"
  shows "map_of (trigger_union st streams)
         = foldl (++) Map.empty (map (\<lambda>stream. map_of (Stream_value st stream)) streams)"
proof -
  have "map (\<lambda>d. map_of (rev d)) (map (\<lambda>stream. Stream_value st stream) streams)
        = map (\<lambda>stream. map_of (Stream_value st stream)) streams"
    using assms by (simp add: map_of_rev_dict is_dict_Stream_value)
  then show ?thesis
    by (simp only: trigger_union_def Let_def map_of_dict_of map_of_rev_concat)
qed

lemma notify_dicts:
  "notify c u subs st = (r, st') \<Longrightarrow>
     \<exists>entries. calls st' = calls st @ entries \<and> (\<forall>(s, u', out) \<in> set entries. u' = u)"
proof (cases r)
  case None
  assume "notify c u subs st = (r, st')"
  with None have "calls st' = calls st @ map (\<lambda>s. (s, u, None)) subs"
    by (simp add: notify_returns)
  then show ?thesis by auto
next
  case (Some e)
  assume "notify c u subs st = (r, st')"
  with Some obtain pre s post where
    "calls st' = calls st @ map (\<lambda>s. (s, u, None)) pre @ [(s, u, Some e)]"
    using notify_raises by blast
  then show ?thesis by auto
qed

subsection \<open>The example, evaluated\<close>

lemmas example_defs = example_A_def example_B_def example_state_def module_state_def
  PositionX_def Number_def name_parameter_def quiet_def failing_def

lemma example_values:
  "Stream_value example_state example_A = [(PyStr ''x'', PyInt 1)]"
  "Stream_value example_state example_B = [(PyStr ''x'', PyInt 2)]"
  by (simp_all add: Stream_value_def get_param_values_def get_value_def dict_of_def
      mapping_get_def example_defs)

lemma example_union:
  "trigger_union example_state [example_A, example_B] = [(PyStr ''x'', PyInt 2)]"
  by (simp add: trigger_union_def example_values dict_of_def)

lemma example_subscribers:
  "trigger_subscribers remdups example_state [example_A, example_B] = [7, 8]"
  by (simp add: trigger_subscribers_def example_defs)

lemma set_iteration_remdups: "set_iteration remdups"
  by (simp add: set_iteration_def)

lemma example_trigger_quiet:
  "Stream_trigger quiet remdups [example_A, example_B] example_state =
     (None, example_state\<lparr>calls := [(7, [(PyStr ''x'', PyInt 2)], None),
                                     (8, [(PyStr ''x'', PyInt 2)], None)]\<rparr>)"
  by (simp add: Stream_trigger_def Let_def example_union example_subscribers)
     (simp add: quiet_def example_state_def module_state_def)

lemma example_trigger_failing:
  "Stream_trigger failing remdups [example_A, example_B] example_state =
     (Some (Exception ''boom''),
      example_state\<lparr>calls := [(7, [(PyStr ''x'', PyInt 2)], Some (Exception ''boom''))]\<rparr>)"
  by (simp add: Stream_trigger_def Let_def example_union example_subscribers)
     (simp add: failing_def example_state_def module_state_def)

lemmas recording_defs = example_A_def example_B_def example_C_def example_D_def
  recording_state_def module_state_def PositionX_def PositionXY_def Number_def
  name_parameter_def recording_def recording_then_failing_def

lemma recording_values:
  "Stream_value recording_state example_A = [(PyStr ''x'', PyInt 1)]"
  "Stream_value recording_state example_B = [(PyStr ''x'', PyInt 2)]"
  by (simp_all add: Stream_value_def get_param_values_def get_value_def dict_of_def
      mapping_get_def recording_defs)

lemma recording_union:
  "trigger_union recording_state [example_A, example_B] = [(PyStr ''x'', PyInt 2)]"
  by (simp add: trigger_union_def recording_values dict_of_def)

lemma recording_subscribers:
  "trigger_subscribers remdups recording_state [example_A, example_B] = [7, 8]"
  by (simp add: trigger_subscribers_def recording_defs)

lemma recording_trigger:
  "Stream_trigger recording remdups [example_A, example_B] recording_state =
     (None, recording_state
        \<lparr>world := [(7, [(PyStr ''x'', PyInt 2)]), (8, [(PyStr ''x'', PyInt 2)])],
         calls := [(7, [(PyStr ''x'', PyInt 2)], None), (8, [(PyStr ''x'', PyInt 2)], None)]\<rparr>)"
  by (simp add: Stream_trigger_def Let_def recording_union recording_subscribers)
     (simp add: recording_def recording_state_def module_state_def)


subsection \<open>Last write wins\<close>

text \<open>
  Claim C2. The dictionary that a trigger hands to a subscriber is the union of the
  value dictionaries of the streams, taken in the order of the list, a later stream
  overwriting an earlier one on a common key. When \<open>[A, B]\<close> is triggered and the value of
  \<open>B\<close> has a key \<open>x\<close>, the dictionary holds the value of \<open>B\<close> under \<open>x\<close>.
\<close>

theorem trigger_last_write_wins:
  assumes "\<forall>stream \<in> set streams. \<forall>p \<in> set (pre_lists st (preprocessors stream)). wf_preprocessor p"
    and "Stream_trigger c set_iter streams st = (r, st')"
    and "(s, u, out) \<in> set (drop (length (calls st)) (calls st'))"
  shows "map_of u = foldl (++) Map.empty (map (\<lambda>stream. map_of (Stream_value st stream)) streams)
     \<and> (\<forall>A B x. streams = [A, B] \<longrightarrow> x \<in> fst ` set (Stream_value st B)
           \<longrightarrow> map_of u x = map_of (Stream_value st B) x)"
proof -
  from assms(2) obtain entries where
    e: "calls st' = calls st @ entries" "\<forall>(s, u', out) \<in> set entries. u' = trigger_union st streams"
    unfolding Stream_trigger_def Let_def using notify_dicts by blast
  with assms(3) have u: "u = trigger_union st streams" by auto
  have 1: "map_of u = foldl (++) Map.empty (map (\<lambda>stream. map_of (Stream_value st stream)) streams)"
    unfolding u by (rule trigger_union_lookup [OF assms(1)])
  have 2: "map_of u x = map_of (Stream_value st B) x"
    if "streams = [A, B]" "x \<in> fst ` set (Stream_value st B)" for A B x
  proof -
    from that(2) obtain y where "map_of (Stream_value st B) x = Some y"
      by (metis domD dom_map_of_conv_image_fst)
    with 1 that(1) show ?thesis by (simp add: map_add_def)
  qed
  from 1 2 show ?thesis by blast
qed

theorem trigger_last_write_wins_witness:
  "map_of [(PyStr ''x'', PyInt 2)] (PyStr ''x'')
     = map_of (Stream_value example_state example_B) (PyStr ''x'')"
proof -
  have 1: "\<forall>stream \<in> set [example_A, example_B].
             \<forall>p \<in> set (pre_lists example_state (preprocessors stream)). wf_preprocessor p"
    by (simp add: example_defs)
  have 2: "(7, [(PyStr ''x'', PyInt 2)], None)
     \<in> set (drop (length (calls example_state))
               (calls (example_state\<lparr>calls := [(7, [(PyStr ''x'', PyInt 2)], None),
                                     (8, [(PyStr ''x'', PyInt 2)], None)]\<rparr>)))"
    by (simp add: example_state_def module_state_def)
  have 3: "PyStr ''x'' \<in> fst ` set (Stream_value example_state example_B)"
    by (simp add: example_values)
  from trigger_last_write_wins [OF 1 example_trigger_quiet 2] 3 show ?thesis
    by blast
qed

section \<open>The subscribers of a trigger\<close>

lemma trigger_subscribers_set:
  "set_iteration set_iter \<Longrightarrow>
     distinct (trigger_subscribers set_iter st streams)
     \<and> set (trigger_subscribers set_iter st streams) = union_of_subscribers st streams"
  by (auto simp: set_iteration_def trigger_subscribers_def union_of_subscribers_def)

text \<open>
  Claim C3. The subscribers of a trigger are a duplicate-free enumeration of the union
  of the \<open>subscribers\<close> and the hidden subscribers of all the streams. The trigger applies
  them in that order, each at most once and each to the merged dictionary: the trace
  holds, for each of the first \<open>n\<close> of them, what that subscriber returned in the world
  left by the ones before it, and the world after the trigger is the world after these
  \<open>n\<close> applications. When the trigger returns, \<open>n\<close> is the length of the enumeration: every
  subscriber of the union has been applied exactly once.
\<close>

theorem trigger_invokes_union_once:
  assumes "set_iteration set_iter"
    and "Stream_trigger c set_iter streams st = (r, st')"
  shows "\<exists>order n.
           order = trigger_subscribers set_iter st streams
         \<and> distinct order \<and> set order = union_of_subscribers st streams
         \<and> n \<le> length order
         \<and> calls st' = calls st @ map (\<lambda>i. (order ! i, trigger_union st streams,
                 fst (c (order ! i) (trigger_union st streams)
                        (world_after c (trigger_union st streams) (take i order) (world st)))))
               [0..<n]
         \<and> world st' = world_after c (trigger_union st streams) (take n order) (world st)
         \<and> (r = None \<longrightarrow> n = length order)"
proof -
  let ?order = "trigger_subscribers set_iter st streams"
  let ?u = "trigger_union st streams"
  from assms(2) have "notify c ?u ?order st = (r, st')"
    by (simp add: Stream_trigger_def)
  from notify_trace [OF this] obtain n where
    "n \<le> length ?order"
    "calls st' = calls st @ map (\<lambda>i. (?order ! i, ?u,
                 fst (c (?order ! i) ?u (world_after c ?u (take i ?order) (world st))))) [0..<n]"
    "world st' = world_after c ?u (take n ?order) (world st)"
    "r = None \<longrightarrow> n = length ?order"
    by blast
  with trigger_subscribers_set [OF assms(1), of st streams] show ?thesis by blast
qed

theorem trigger_invokes_union_once_witness:
  "\<exists>order n.
       order = trigger_subscribers remdups recording_state [example_A, example_B]
     \<and> distinct order \<and> set order = union_of_subscribers recording_state [example_A, example_B]
     \<and> n \<le> length order
     \<and> calls (recording_state
          \<lparr>world := [(7, [(PyStr ''x'', PyInt 2)]), (8, [(PyStr ''x'', PyInt 2)])],
           calls := [(7, [(PyStr ''x'', PyInt 2)], None), (8, [(PyStr ''x'', PyInt 2)], None)]\<rparr>)
         = calls recording_state @ map (\<lambda>i. (order ! i, trigger_union recording_state [example_A, example_B],
                 fst (recording (order ! i) (trigger_union recording_state [example_A, example_B])
                        (world_after recording (trigger_union recording_state [example_A, example_B])
                           (take i order) (world recording_state)))))
               [0..<n]
     \<and> world (recording_state
          \<lparr>world := [(7, [(PyStr ''x'', PyInt 2)]), (8, [(PyStr ''x'', PyInt 2)])],
           calls := [(7, [(PyStr ''x'', PyInt 2)], None), (8, [(PyStr ''x'', PyInt 2)], None)]\<rparr>)
         = world_after recording (trigger_union recording_state [example_A, example_B])
             (take n order) (world recording_state)
     \<and> (None = (None :: exn option) \<longrightarrow> n = length order)"
  by (rule trigger_invokes_union_once [OF set_iteration_remdups recording_trigger])

text \<open>
  Claim C6. When a subscriber raises during a trigger, the trigger raises the same
  exception, the raising call is the last call of the pass, and no subscriber that comes
  later in the iteration is invoked.
\<close>

theorem trigger_aborts_on_exception:
  assumes "set_iteration set_iter"
    and "Stream_trigger c set_iter streams st = (r, st')"
    and "(s, u, Some e) \<in> set (drop (length (calls st)) (calls st'))"
  shows "r = Some e
       \<and> (\<exists>pre post. trigger_subscribers set_iter st streams = pre @ s # post
            \<and> calls st' = calls st @ map (\<lambda>s. (s, u, None)) pre @ [(s, u, Some e)]
            \<and> (\<forall>t \<in> set post. \<forall>u' out. (t, u', out) \<notin> set (drop (length (calls st)) (calls st'))))"
proof -
  let ?order = "trigger_subscribers set_iter st streams"
  let ?u = "trigger_union st streams"
  from assms(2) have n: "notify c ?u ?order st = (r, st')"
    by (simp add: Stream_trigger_def)
  have d: "distinct ?order"
    using trigger_subscribers_set [OF assms(1)] by blast
  show ?thesis
  proof (cases r)
    case None
    with n have "calls st' = calls st @ map (\<lambda>s. (s, ?u, None)) ?order"
      by (simp add: notify_returns)
    with assms(3) show ?thesis by auto
  next
    case (Some e')
    with n obtain pre s' post where
      p: "?order = pre @ s' # post"
         "calls st' = calls st @ map (\<lambda>s. (s, ?u, None)) pre @ [(s', ?u, Some e')]"
      using notify_raises by blast
    from assms(3) p(2) have eq: "s = s'" "u = ?u" "e = e'" by auto
    from d p(1) have fresh: "\<forall>t \<in> set post. t \<notin> set pre \<and> t \<noteq> s'" by auto
    have "\<forall>t \<in> set post. \<forall>u' out. (t, u', out) \<notin> set (drop (length (calls st)) (calls st'))"
      using fresh p(2) by auto
    with p eq Some show ?thesis by blast
  qed
qed

theorem trigger_aborts_on_exception_witness:
  "Some (Exception ''boom'') = Some (Exception ''boom'')
   \<and> (\<exists>pre post. trigger_subscribers remdups example_state [example_A, example_B] = pre @ 7 # post
        \<and> calls (example_state\<lparr>calls := [(7, [(PyStr ''x'', PyInt 2)], Some (Exception ''boom''))]\<rparr>)
            = calls example_state @ map (\<lambda>s. (s, [(PyStr ''x'', PyInt 2)], None)) pre
                @ [(7, [(PyStr ''x'', PyInt 2)], Some (Exception ''boom''))]
        \<and> (\<forall>t \<in> set post. \<forall>u' out. (t, u', out) \<notin> set (drop (length (calls example_state))
             (calls (example_state\<lparr>calls := [(7, [(PyStr ''x'', PyInt 2)], Some (Exception ''boom''))]\<rparr>)))))"
proof -
  have 3: "(7, [(PyStr ''x'', PyInt 2)], Some (Exception ''boom''))
     \<in> set (drop (length (calls example_state))
          (calls (example_state\<lparr>calls := [(7, [(PyStr ''x'', PyInt 2)], Some (Exception ''boom''))]\<rparr>)))"
    by (simp add: example_state_def module_state_def)
  show ?thesis
    by (rule trigger_aborts_on_exception [OF set_iteration_remdups example_trigger_failing 3])
qed

section \<open>Assignment of keyword arguments\<close>

lemma setattr_params: "setattr st s k v = Inr s' \<Longrightarrow> params s' = params s"
  by (auto simp: setattr_def split: option.splits if_splits)

lemma set_param_success:
  assumes "\<forall>(k, v) \<in> set kwargs. \<forall>p. map_of (params s) k = Some p \<longrightarrow>
             accepts (parameters st p) v
               \<and> \<not> (is_constant (parameters st p) \<and> initialized s)"
  shows "set_param st s kwargs =
     (None, s\<lparr>param_values := foldl (\<lambda>d (k, v). AList.update k v d) (param_values s)
                                  (filter (declared s) kwargs),
               attrs := foldl (\<lambda>d (k, v). AList.update k v d) (attrs s)
                                  (filter (\<lambda>kv. \<not> declared s kv) kwargs)\<rparr>)"
  using assms
proof (induction kwargs arbitrary: s)
  case Nil
  show ?case by simp
next
  case (Cons kv kwargs)
  obtain k v where kv: "kv = (k, v)" by (cases kv)
  show ?case
  proof (cases "map_of (params s) k")
    case None
    let ?s = "s\<lparr>attrs := AList.update k v (attrs s)\<rparr>"
    have s: "setattr st s k v = Inr ?s" using None by (simp add: setattr_def)
    have d: "declared ?s = declared s" by (simp add: declared_def)
    have "\<forall>(k, v) \<in> set kwargs. \<forall>p. map_of (params ?s) k = Some p \<longrightarrow>
             accepts (parameters st p) v
               \<and> \<not> (is_constant (parameters st p) \<and> initialized ?s)"
      using Cons.prems by simp
    from Cons.IH [OF this] show ?thesis
      using kv s None by (simp add: d) (simp add: declared_def)
  next
    case (Some p)
    let ?s = "s\<lparr>param_values := AList.update k v (param_values s)\<rparr>"
    from Cons.prems kv Some
    have "accepts (parameters st p) v
               \<and> \<not> (is_constant (parameters st p) \<and> initialized s)" by simp
    then have s: "setattr st s k v = Inr ?s" using Some by (simp add: setattr_def)
    have d: "declared ?s = declared s" by (simp add: declared_def)
    have "\<forall>(k, v) \<in> set kwargs. \<forall>p. map_of (params ?s) k = Some p \<longrightarrow>
             accepts (parameters st p) v
               \<and> \<not> (is_constant (parameters st p) \<and> initialized ?s)"
      using Cons.prems by simp
    from Cons.IH [OF this] show ?thesis
      using kv s Some by (simp add: d) (simp add: declared_def)
  qed
qed

lemma lifted_state:
  "parameters (foldl (\<lambda>st p. set_constant p False st) st ps) q =
     (if q \<in> set ps then (parameters st q)\<lparr>is_constant := False\<rparr> else parameters st q)"
  by (simp only: lift_fold set_constant_fold) (simp add: flags_lifted)

lemma lifted_frame:
  "pre_lists (foldl (\<lambda>st p. set_constant p False st) st ps) = pre_lists st"
  "sub_lists (foldl (\<lambda>st p. set_constant p False st) st ps) = sub_lists st"
  "calls (foldl (\<lambda>st p. set_constant p False st) st ps) = calls st"
  "world (foldl (\<lambda>st p. set_constant p False st) st ps) = world st"
  by (simp_all only: lift_fold set_constant_fold) simp_all

lemma map_of_params_snd: "map_of (params s) k = Some p \<Longrightarrow> p \<in> set (map snd (params s))"
  by (force dest: map_of_SomeD)

lemma update_success:
  assumes "\<forall>(k, v) \<in> set kwargs. \<forall>p. map_of (params self) k = Some p \<longrightarrow> accepts (parameters st p) v"
  defines "self' \<equiv> self\<lparr>param_values := foldl (\<lambda>d (k, v). AList.update k v d) (param_values self)
                                  (filter (declared self) kwargs),
               attrs := foldl (\<lambda>d (k, v). AList.update k v d) (attrs self)
                                  (filter (\<lambda>kv. \<not> declared self kv) kwargs)\<rparr>"
  shows "Stream_update c set_iter trigger kwargs self st =
     (if trigger
      then (case Stream_trigger c set_iter [self'] st of (r, st3) \<Rightarrow> (r, self', st3))
      else (None, self', st))"
proof -
  let ?ps = "map snd (params self)"
  let ?st1 = "foldl (\<lambda>st p. set_constant p False st) st ?ps"
  have "\<forall>(k, v) \<in> set kwargs. \<forall>p. map_of (params self) k = Some p \<longrightarrow>
          accepts (parameters ?st1 p) v
            \<and> \<not> (is_constant (parameters ?st1 p) \<and> initialized self)"
  proof (intro ballI, clarify)
    fix k v p
    assume kv: "(k, v) \<in> set kwargs" and p: "map_of (params self) k = Some p"
    from assms(1) kv p have a: "accepts (parameters st p) v" by blast
    from p have "p \<in> set ?ps" by (rule map_of_params_snd)
    with a show "accepts (parameters ?st1 p) v
            \<and> \<not> (is_constant (parameters ?st1 p) \<and> initialized self)"
      by (simp add: lifted_state)
  qed
  from set_param_success [OF this]
  have sp: "set_param ?st1 self kwargs = (None, self')" by (simp add: self'_def)
  have rt: "foldl (\<lambda>st (p, const). set_constant p const st) ?st1
              (zip ?ps (map (\<lambda>p. is_constant (parameters st p)) ?ps)) = st"
    by (rule update_flags_roundtrip)
  show ?thesis
    unfolding Stream_update_def Let_def sp rt by simp
qed

lemma setattr_kept:
  "setattr st s k v = Inr s' \<Longrightarrow> params s' = params s \<and> initialized s' = initialized s"
  by (auto simp: setattr_def split: option.splits if_splits)

lemma set_param_failure:
  assumes "\<forall>(k, v) \<in> set kwargs. \<forall>p. map_of (params s) k = Some p \<longrightarrow>
             \<not> (is_constant (parameters st p) \<and> initialized s)"
    and "\<exists>(k, v) \<in> set kwargs. \<exists>p. map_of (params s) k = Some p \<and> \<not> accepts (parameters st p) v"
  shows "fst (set_param st s kwargs) = Some ValueError"
  using assms
proof (induction kwargs arbitrary: s)
  case Nil
  then show ?case by simp
next
  case (Cons kv kwargs)
  obtain k v where kv: "kv = (k, v)" by (cases kv)
  show ?case
  proof (cases "setattr st s k v")
    case (Inl e)
    then have "e = ValueError"
      using Cons.prems(1) kv by (auto simp: setattr_def split: option.splits if_splits)
    with Inl kv show ?thesis by simp
  next
    case (Inr s1)
    note kept = setattr_kept [OF Inr]
    from Inr have here: "\<forall>p. map_of (params s) k = Some p \<longrightarrow> accepts (parameters st p) v"
      by (auto simp: setattr_def split: option.splits if_splits)
    have 1: "\<forall>(k, v) \<in> set kwargs. \<forall>p. map_of (params s1) k = Some p \<longrightarrow>
             \<not> (is_constant (parameters st p) \<and> initialized s1)"
      using Cons.prems(1) kept by simp
    from Cons.prems(2) kv here
    have "\<exists>(k, v) \<in> set kwargs. \<exists>p. map_of (params s) k = Some p \<and> \<not> accepts (parameters st p) v"
      by auto
    then have 2: "\<exists>(k, v) \<in> set kwargs. \<exists>p. map_of (params s1) k = Some p
                    \<and> \<not> accepts (parameters st p) v"
      using kept by simp
    from Cons.IH [OF 1 2] Inr kv show ?thesis by simp
  qed
qed

lemma update_failure:
  assumes "\<not> (\<forall>(k, v) \<in> set kwargs. \<forall>p. map_of (params self) k = Some p
               \<longrightarrow> accepts (parameters st p) v)"
    and "Stream_update c set_iter trigger kwargs self st = (r, self', st')"
  shows "r = Some ValueError \<and> calls st' = calls st \<and> world st' = world st"
proof -
  let ?ps = "map snd (params self)"
  let ?st1 = "foldl (\<lambda>st p. set_constant p False st) st ?ps"
  have lifted: "\<not> is_constant (parameters ?st1 p) \<and> accepts (parameters ?st1 p) = accepts (parameters st p)"
    if "map_of (params self) k = Some p" for k p
    using map_of_params_snd [OF that] by (simp add: lifted_state)
  have 1: "\<forall>(k, v) \<in> set kwargs. \<forall>p. map_of (params self) k = Some p \<longrightarrow>
             \<not> (is_constant (parameters ?st1 p) \<and> initialized self)"
    using lifted by blast
  from assms(1) obtain k v p where
    "(k, v) \<in> set kwargs" "map_of (params self) k = Some p" "\<not> accepts (parameters st p) v"
    by blast
  with lifted have 2: "\<exists>(k, v) \<in> set kwargs. \<exists>p. map_of (params self) k = Some p
                         \<and> \<not> accepts (parameters ?st1 p) v"
    by force
  obtain s1 where sp: "set_param ?st1 self kwargs = (Some ValueError, s1)"
    using set_param_failure [OF 1 2] by (cases "set_param ?st1 self kwargs") simp
  from assms(2) have "r = Some ValueError \<and> st' = ?st1"
    by (simp add: Stream_update_def Let_def sp)
  then show ?thesis by (simp add: lifted_frame)
qed


section \<open>The remapped dictionary\<close>

lemma Stream_value_remapped:
  "Stream_value st s = fold call (pre_lists st (preprocessors s)) (remapped st s)"
  by (simp add: Stream_value_def remapped_def foldl_conv_fold)

lemma set_get_param_values:
  "set (get_param_values st s) = (\<lambda>(k, p). (k, get_value st s k p)) ` set (params s)"
  by (simp add: get_param_values_def)

lemma map_of_unique:
  assumes "(a, b) \<in> set xs" and "\<forall>(a', b') \<in> set xs. a' = a \<longrightarrow> b' = b"
  shows "map_of xs a = Some b"
proof -
  from assms(1) obtain x where x: "map_of xs a = Some x"
    using weak_map_of_SomeI by fastforce
  then have "(a, x) \<in> set xs" by (rule map_of_SomeD)
  with assms(2) x show ?thesis by auto
qed

lemma remapped_is_dict: "is_dict (remapped st s)"
  by (simp add: remapped_def is_dict_def distinct_dict_of)

lemma remapped_keys:
  "fst ` set (remapped st s) = mapping_get (mapping s) ` (fst ` set (params s) - {''name''})"
  unfolding remapped_def keys_dict_of
  by (force simp: set_get_param_values)

lemma remapped_lookup:
  assumes "distinct (map fst (params s))"
    and "(k, p) \<in> set (params s)" and "k \<noteq> ''name''"
    and "\<forall>(k', p') \<in> set (params s). k' \<noteq> ''name'' \<longrightarrow> k' \<noteq> k
           \<longrightarrow> mapping_get (mapping s) k' \<noteq> mapping_get (mapping s) k"
  shows "map_of (remapped st s) (mapping_get (mapping s) k) = Some (get_value st s k p)"
proof -
  let ?kvs = "map (\<lambda>(k, v). (mapping_get (mapping s) k, v))
                (filter (\<lambda>(k, v). k \<noteq> ''name'') (get_param_values st s))"
  have mem: "(mapping_get (mapping s) k, get_value st s k p) \<in> set (rev ?kvs)"
    using assms(2,3) by (force simp: set_get_param_values)
  have uniq: "\<forall>(a', b') \<in> set (rev ?kvs). a' = mapping_get (mapping s) k \<longrightarrow> b' = get_value st s k p"
  proof (clarsimp simp: set_get_param_values)
    fix k' p'
    assume 1: "(k', p') \<in> set (params s)" and 2: "k' \<noteq> ''name''"
      and 3: "mapping_get (mapping s) k' = mapping_get (mapping s) k"
    from assms(4) 1 2 3 have "k' = k" by blast
    with assms(1,2) 1 have "p' = p" by (metis eq_key_imp_eq_value)
    with \<open>k' = k\<close> show "get_value st s k' p' = get_value st s k p" by simp
  qed
  show ?thesis
    unfolding remapped_def map_of_dict_of by (rule map_of_unique [OF mem uniq])
qed

section \<open>update\<close>

lemma updated_values_lookup:
  assumes "distinct (map fst kwargs)" and "(k, v) \<in> set kwargs" and "P (k, v)"
  shows "map_of (foldl (\<lambda>d (k, v). AList.update k v d) d (filter P kwargs)) k = Some v"
proof -
  have "distinct (map fst (rev (filter P kwargs)))"
    using assms(1) by (simp add: rev_map [symmetric] distinct_map_filter)
  moreover have "(k, v) \<in> set (rev (filter P kwargs))" using assms(2,3) by simp
  ultimately have "map_of (rev (filter P kwargs)) k = Some v" by (rule map_of_is_SomeI)
  then show ?thesis by (simp add: foldl_update_map_of map_add_def)
qed

lemma Stream_value_frame:
  assumes "parameters st' = parameters st" and "pre_lists st' = pre_lists st"
  shows "Stream_value st' s = Stream_value st s"
proof -
  have "get_value st' s = get_value st s"
    by (simp add: get_value_def fun_eq_iff assms(1) cong: option.case_cong)
  then have "get_param_values st' s = get_param_values st s"
    by (simp add: get_param_values_def)
  then show ?thesis
    by (simp add: Stream_value_def assms(2))
qed

lemma distinct_singleton_set:
  assumes "distinct xs" and "set xs = {f}"
  shows "xs = [f]"
proof (cases xs)
  case Nil
  with assms(2) show ?thesis by simp
next
  case (Cons x ys)
  with assms(2) have x: "x = f" by auto
  from Cons assms x have "set ys \<subseteq> {f}" "f \<notin> set ys" by auto
  then have "ys = []" by (cases ys) auto
  with Cons x show ?thesis by simp
qed

lemma trigger_union_single:
  "\<forall>p \<in> set (pre_lists st (preprocessors s)). wf_preprocessor p \<Longrightarrow>
     trigger_union st [s] = Stream_value st s"
  using is_dict_Stream_value [of st s]
  by (simp add: trigger_union_def is_dict_def dict_of_distinct)

lemma Stream_trigger_frame:
  "Stream_trigger c set_iter streams st = (r, st') \<Longrightarrow>
     parameters st' = parameters st \<and> sub_lists st' = sub_lists st \<and> pre_lists st' = pre_lists st"
  unfolding Stream_trigger_def Let_def by (drule notify_frame) simp

lemma notify_single:
  "notify c u [f] st =
     (fst (c f u (world st)),
      st\<lparr>world := snd (c f u (world st)), calls := calls st @ [(f, u, fst (c f u (world st)))]\<rparr>)"
proof -
  obtain out w where cw: "c f u (world st) = (out, w)" by (cases "c f u (world st)")
  then show ?thesis by (cases out) simp_all
qed

lemma trigger_single_call:
  assumes "set_iteration set_iter"
    and "set (sub_lists st (subscribers s)) \<union> set (sub_lists st (hidden_subscribers s)) = {f}"
    and "Stream_trigger c set_iter [s] st = (r, st')"
  shows "r = fst (c f (trigger_union st [s]) (world st))
     \<and> calls st' = calls st @ [(f, trigger_union st [s], fst (c f (trigger_union st [s]) (world st)))]
     \<and> world st' = snd (c f (trigger_union st [s]) (world st))"
proof -
  let ?order = "trigger_subscribers set_iter st [s]"
  from trigger_subscribers_set [OF assms(1), of st "[s]"] assms(2)
  have "distinct ?order" "set ?order = {f}"
    by (simp_all add: union_of_subscribers_def)
  then have o: "?order = [f]"
    by (rule distinct_singleton_set)
  from assms(3) have "notify c (trigger_union st [s]) [f] st = (r, st')"
    by (simp add: Stream_trigger_def Let_def o)
  then have "(r, st') =
     (fst (c f (trigger_union st [s]) (world st)),
      st\<lparr>world := snd (c f (trigger_union st [s]) (world st)),
         calls := calls st @ [(f, trigger_union st [s], fst (c f (trigger_union st [s]) (world st)))]\<rparr>)"
    by (simp only: notify_single)
  then show ?thesis by simp
qed

lemma Stream_trigger_trace:
  assumes "Stream_trigger c set_iter streams st = (r, st')"
  shows "\<exists>n \<le> length (trigger_subscribers set_iter st streams).
        calls st' = calls st @ map (\<lambda>i. (trigger_subscribers set_iter st streams ! i,
                       trigger_union st streams,
                       fst (c (trigger_subscribers set_iter st streams ! i) (trigger_union st streams)
                             (world_after c (trigger_union st streams)
                                (take i (trigger_subscribers set_iter st streams)) (world st)))))
                  [0..<n]
      \<and> world st' = world_after c (trigger_union st streams)
                       (take n (trigger_subscribers set_iter st streams)) (world st)
      \<and> (r = None \<longrightarrow> n = length (trigger_subscribers set_iter st streams))"
proof -
  from assms
  have "notify c (trigger_union st streams) (trigger_subscribers set_iter st streams) st = (r, st')"
    by (simp add: Stream_trigger_def)
  then show ?thesis by (rule notify_trace)
qed

text \<open>
  Claim C4. The keywords name declared fields. When every supplied value is acceptable
  to its field, \<^verbatim>\<open>update\<close> has assigned all of them before it triggers, and the one
  trigger pass applies the subscribers of the instance to the value of the fully updated
  stream: the trace and the world after the call are those of that pass. A stream with
  one subscriber has it applied exactly once, the call returns what the subscriber
  returned, and without preprocessors the dictionary has each new value under the
  external key of its field. With \<^verbatim>\<open>trigger\<close> false no subscriber is applied. When a
  value is rejected, the call raises before any trigger: no subscriber is applied, so
  none sees a partial update.
\<close>

theorem update_snapshot_and_single_trigger:
  fixes c :: "'w subscriber_call" and st st' :: "'w state"
  assumes it: "set_iteration set_iter"
    and kw: "distinct (map fst kwargs)"
    and decl: "\<forall>(k, v) \<in> set kwargs. map_of (params self) k \<noteq> None"
    and wf: "\<forall>p \<in> set (pre_lists st (preprocessors self)). wf_preprocessor p"
    and up: "Stream_update c set_iter trigger kwargs self st = (r, self', st')"
  defines "V \<equiv> Stream_value st' self'"
    and "order \<equiv> trigger_subscribers set_iter st [self']"
  shows "((\<forall>(k, v) \<in> set kwargs. \<forall>p. map_of (params self) k = Some p
              \<longrightarrow> accepts (parameters st p) v) \<longrightarrow>
            (\<forall>(k, v) \<in> set kwargs. \<forall>p. map_of (params self) k = Some p
               \<longrightarrow> get_value st' self' k p = v)
          \<and> (\<exists>n \<le> length order.
                calls st' = calls st @ map (\<lambda>i. (order ! i, V,
                               fst (c (order ! i) V (world_after c V (take i order) (world st)))))
                            [0..<n]
              \<and> world st' = world_after c V (take n order) (world st)
              \<and> (trigger \<longrightarrow> r = None \<longrightarrow> n = length order)
              \<and> (\<not> trigger \<longrightarrow> n = 0 \<and> r = None))
          \<and> (trigger \<longrightarrow>
                (\<forall>f. set (sub_lists st (subscribers self))
                       \<union> set (sub_lists st (hidden_subscribers self)) = {f}
                   \<longrightarrow> r = fst (c f V (world st))
                     \<and> calls st' = calls st @ [(f, V, fst (c f V (world st)))]
                     \<and> world st' = snd (c f V (world st))))
          \<and> (pre_lists st (preprocessors self) = [] \<longrightarrow> distinct (map fst (params self)) \<longrightarrow>
                (\<forall>(k, v) \<in> set kwargs. \<forall>p. (k, p) \<in> set (params self) \<longrightarrow> k \<noteq> ''name'' \<longrightarrow>
                   (\<forall>(k', p') \<in> set (params self). k' \<noteq> ''name'' \<longrightarrow> k' \<noteq> k
                      \<longrightarrow> mapping_get (mapping self) k' \<noteq> mapping_get (mapping self) k) \<longrightarrow>
                   map_of V (mapping_get (mapping self) k) = Some v)))
    \<and> (\<not> (\<forall>(k, v) \<in> set kwargs. \<forall>p. map_of (params self) k = Some p
               \<longrightarrow> accepts (parameters st p) v) \<longrightarrow>
          r = Some ValueError \<and> calls st' = calls st \<and> world st' = world st)"
proof (rule conjI; rule impI)
  assume bad: "\<not> (\<forall>(k, v) \<in> set kwargs. \<forall>p. map_of (params self) k = Some p
               \<longrightarrow> accepts (parameters st p) v)"
  from update_failure [OF bad up]
  show "r = Some ValueError \<and> calls st' = calls st \<and> world st' = world st" .
next
  assume ok: "\<forall>(k, v) \<in> set kwargs. \<forall>p. map_of (params self) k = Some p
               \<longrightarrow> accepts (parameters st p) v"
  define new where "new = self\<lparr>param_values := foldl (\<lambda>d (k, v). AList.update k v d) (param_values self)
                                  (filter (declared self) kwargs),
               attrs := foldl (\<lambda>d (k, v). AList.update k v d) (attrs self)
                                  (filter (\<lambda>kv. \<not> declared self kv) kwargs)\<rparr>"
  have new_fields: "params new = params self" "mapping new = mapping self"
    "preprocessors new = preprocessors self" "subscribers new = subscribers self"
    "hidden_subscribers new = hidden_subscribers self"
    by (simp_all add: new_def)
  have res: "(r, self', st') =
     (if trigger
      then (case Stream_trigger c set_iter [new] st of (r, st3) \<Rightarrow> (r, new, st3))
      else (None, new, st))"
    unfolding up [symmetric] new_def by (rule update_success [OF ok])
  have self': "self' = new"
  proof (cases trigger)
    case True
    obtain r3 st3 where "Stream_trigger c set_iter [new] st = (r3, st3)"
      by (cases "Stream_trigger c set_iter [new] st")
    with res True show ?thesis by simp
  next
    case False
    with res show ?thesis by simp
  qed
  have trig: "Stream_trigger c set_iter [new] st = (r, st')" if trigger
  proof -
    obtain r3 st3 where t: "Stream_trigger c set_iter [new] st = (r3, st3)"
      by (cases "Stream_trigger c set_iter [new] st")
    with res that show ?thesis by simp
  qed
  have quiet: "st' = st \<and> r = None" if "\<not> trigger"
    using res that by simp
  have frame: "parameters st' = parameters st \<and> pre_lists st' = pre_lists st"
  proof (cases trigger)
    case True
    from Stream_trigger_frame [OF trig [OF True]] show ?thesis by simp
  next
    case False
    then show ?thesis by (simp add: quiet)
  qed
  have val: "Stream_value st' new = Stream_value st new"
    by (rule Stream_value_frame) (simp_all add: frame)
  have wf': "\<forall>p \<in> set (pre_lists st (preprocessors new)). wf_preprocessor p"
    using wf by (simp add: new_fields)
  have V: "trigger_union st [new] = V"
    by (simp add: V_def self' val trigger_union_single [OF wf'])
  have order: "trigger_subscribers set_iter st [new] = order"
    by (simp add: order_def self')
  have got: "get_value st' new k p = v"
    if "(k, v) \<in> set kwargs" "map_of (params self) k = Some p" for k v p
  proof -
    from that(2) have "declared self (k, v)" by (simp add: declared_def)
    from updated_values_lookup [OF kw that(1), of "declared self", OF this]
    show ?thesis by (simp add: get_value_def new_def)
  qed
  have assigned: "\<forall>(k, v) \<in> set kwargs. \<forall>p. map_of (params self) k = Some p
             \<longrightarrow> get_value st' self' k p = v"
    using got self' by blast
  have pass: "\<exists>n \<le> length order.
                calls st' = calls st @ map (\<lambda>i. (order ! i, V,
                               fst (c (order ! i) V (world_after c V (take i order) (world st)))))
                            [0..<n]
              \<and> world st' = world_after c V (take n order) (world st)
              \<and> (trigger \<longrightarrow> r = None \<longrightarrow> n = length order)
              \<and> (\<not> trigger \<longrightarrow> n = 0 \<and> r = None)"
  proof (cases trigger)
    case True
    from Stream_trigger_trace [OF trig [OF True]] obtain n where
      "n \<le> length order"
      "calls st' = calls st @ map (\<lambda>i. (order ! i, V,
                               fst (c (order ! i) V (world_after c V (take i order) (world st)))))
                            [0..<n]"
      "world st' = world_after c V (take n order) (world st)"
      "r = None \<longrightarrow> n = length order"
      unfolding V order by blast
    with True show ?thesis by blast
  next
    case False
    from quiet [OF False] have "0 \<le> length order
      \<and> calls st' = calls st @ map (\<lambda>i. (order ! i, V,
                               fst (c (order ! i) V (world_after c V (take i order) (world st)))))
                            [0..<0]
      \<and> world st' = world_after c V (take 0 order) (world st)
      \<and> (trigger \<longrightarrow> r = None \<longrightarrow> 0 = length order)
      \<and> (\<not> trigger \<longrightarrow> 0 = (0::nat) \<and> r = None)"
      using False by (simp add: world_after_def)
    then show ?thesis by blast
  qed
  have single: "trigger \<longrightarrow> (\<forall>f. set (sub_lists st (subscribers self))
                       \<union> set (sub_lists st (hidden_subscribers self)) = {f}
                   \<longrightarrow> r = fst (c f V (world st))
                     \<and> calls st' = calls st @ [(f, V, fst (c f V (world st)))]
                     \<and> world st' = snd (c f V (world st)))"
  proof (intro allI impI)
    fix f
    assume t: trigger
    assume "set (sub_lists st (subscribers self))
              \<union> set (sub_lists st (hidden_subscribers self)) = {f}"
    then have "set (sub_lists st (subscribers new)) \<union> set (sub_lists st (hidden_subscribers new)) = {f}"
      by (simp add: new_fields)
    from trigger_single_call [OF it this trig [OF t]]
    show "r = fst (c f V (world st))
                     \<and> calls st' = calls st @ [(f, V, fst (c f V (world st)))]
                     \<and> world st' = snd (c f V (world st))"
      by (simp only: V)
  qed
  have content: "pre_lists st (preprocessors self) = [] \<longrightarrow> distinct (map fst (params self)) \<longrightarrow>
                (\<forall>(k, v) \<in> set kwargs. \<forall>p. (k, p) \<in> set (params self) \<longrightarrow> k \<noteq> ''name'' \<longrightarrow>
                   (\<forall>(k', p') \<in> set (params self). k' \<noteq> ''name'' \<longrightarrow> k' \<noteq> k
                      \<longrightarrow> mapping_get (mapping self) k' \<noteq> mapping_get (mapping self) k) \<longrightarrow>
                   map_of V (mapping_get (mapping self) k) = Some v)"
  proof (intro impI ballI, clarify)
    fix k v p
    assume nopre: "pre_lists st (preprocessors self) = []"
      and dist: "distinct (map fst (params self))"
    assume in_kw: "(k, v) \<in> set kwargs" and in_ps: "(k, p) \<in> set (params self)"
      and k: "k \<noteq> ''name''"
      and uniq: "\<forall>(k', p') \<in> set (params self). k' \<noteq> ''name'' \<longrightarrow> k' \<noteq> k
                      \<longrightarrow> mapping_get (mapping self) k' \<noteq> mapping_get (mapping self) k"
    have m: "map_of (params self) k = Some p"
      using dist in_ps by (rule map_of_is_SomeI)
    have "V = remapped st' new"
      using nopre frame by (simp add: V_def Stream_value_remapped self' new_fields)
    moreover have "map_of (remapped st' new) (mapping_get (mapping new) k)
                   = Some (get_value st' new k p)"
      by (rule remapped_lookup) (use dist in_ps k uniq in \<open>simp_all add: new_fields\<close>)
    ultimately show "map_of V (mapping_get (mapping self) k) = Some v"
      using got [OF in_kw m] by (simp add: new_fields)
  qed
  show "(\<forall>(k, v) \<in> set kwargs. \<forall>p. map_of (params self) k = Some p
               \<longrightarrow> get_value st' self' k p = v)
          \<and> (\<exists>n \<le> length order.
                calls st' = calls st @ map (\<lambda>i. (order ! i, V,
                               fst (c (order ! i) V (world_after c V (take i order) (world st)))))
                            [0..<n]
              \<and> world st' = world_after c V (take n order) (world st)
              \<and> (trigger \<longrightarrow> r = None \<longrightarrow> n = length order)
              \<and> (\<not> trigger \<longrightarrow> n = 0 \<and> r = None))
          \<and> (trigger \<longrightarrow>
                (\<forall>f. set (sub_lists st (subscribers self))
                       \<union> set (sub_lists st (hidden_subscribers self)) = {f}
                   \<longrightarrow> r = fst (c f V (world st))
                     \<and> calls st' = calls st @ [(f, V, fst (c f V (world st)))]
                     \<and> world st' = snd (c f V (world st))))
          \<and> (pre_lists st (preprocessors self) = [] \<longrightarrow> distinct (map fst (params self)) \<longrightarrow>
                (\<forall>(k, v) \<in> set kwargs. \<forall>p. (k, p) \<in> set (params self) \<longrightarrow> k \<noteq> ''name'' \<longrightarrow>
                   (\<forall>(k', p') \<in> set (params self). k' \<noteq> ''name'' \<longrightarrow> k' \<noteq> k
                      \<longrightarrow> mapping_get (mapping self) k' \<noteq> mapping_get (mapping self) k) \<longrightarrow>
                   map_of V (mapping_get (mapping self) k) = Some v))"
    by (rule conjI [OF assigned conjI [OF pass conjI [OF single content]]])
qed

theorem update_snapshot_and_single_trigger_witness:
  "(case Stream_update recording remdups True [(''x'', PyInt 5), (''y'', PyInt 6)]
           example_D recording_state of
      (r, self', st') \<Rightarrow>
         r = None
       \<and> calls st' = [(7, Stream_value st' self', None)]
       \<and> world st' = [(7, Stream_value st' self')]
       \<and> map_of (Stream_value st' self') (PyStr ''posx'') = Some (PyInt 5)
       \<and> map_of (Stream_value st' self') (PyStr ''y'') = Some (PyInt 6))
   \<and> (case Stream_update recording remdups True [(''x'', PyInt 5), (''y'', PyStr ''abc'')]
           example_D recording_state of
      (r, self', st') \<Rightarrow> r = Some ValueError \<and> calls st' = [] \<and> world st' = [])"
proof -
  have wf: "\<forall>p \<in> set (pre_lists recording_state (preprocessors example_D)). wf_preprocessor p"
    by (simp add: recording_defs)
  have good: "r = None
       \<and> calls st' = [(7, Stream_value st' self', None)]
       \<and> world st' = [(7, Stream_value st' self')]
       \<and> map_of (Stream_value st' self') (PyStr ''posx'') = Some (PyInt 5)
       \<and> map_of (Stream_value st' self') (PyStr ''y'') = Some (PyInt 6)"
    if up: "Stream_update recording remdups True [(''x'', PyInt 5), (''y'', PyInt 6)]
              example_D recording_state = (r, self', st')" for r self' st'
  proof -
    have kw: "distinct (map fst [(''x'', PyInt 5), (''y'', PyInt 6)])" by simp
    have decl: "\<forall>(k, v) \<in> set [(''x'', PyInt 5), (''y'', PyInt 6)].
                  map_of (params example_D) k \<noteq> None"
      by (simp add: recording_defs)
    have ok: "\<forall>(k, v) \<in> set [(''x'', PyInt 5), (''y'', PyInt 6)].
                \<forall>p. map_of (params example_D) k = Some p
                  \<longrightarrow> accepts (parameters recording_state p) v"
      by (simp add: recording_defs is_number_def)
    note t = update_snapshot_and_single_trigger [OF set_iteration_remdups kw decl wf up,
        THEN conjunct1, THEN mp, OF ok]
    have s: "set (sub_lists recording_state (subscribers example_D))
           \<union> set (sub_lists recording_state (hidden_subscribers example_D)) = {7}"
      by (simp add: recording_defs)
    note single = t [THEN conjunct2, THEN conjunct2, THEN conjunct1, THEN mp, OF TrueI,
        THEN spec, THEN mp, OF s]
    have p: "pre_lists recording_state (preprocessors example_D) = []"
      "distinct (map fst (params example_D))"
      by (simp_all add: recording_defs)
    note content = t [THEN conjunct2, THEN conjunct2, THEN conjunct2,
        THEN mp, OF p(1), THEN mp, OF p(2)]
    have x: "(''x'', PyInt 5) \<in> set [(''x'', PyInt 5), (''y'', PyInt 6)]"
      and y: "(''y'', PyInt 6) \<in> set [(''x'', PyInt 5), (''y'', PyInt 6)]" by simp_all
    have px: "(''x'', 3) \<in> set (params example_D)" and py: "(''y'', 4) \<in> set (params example_D)"
      by (simp_all add: recording_defs)
    have nx: "''x'' \<noteq> ''name''" and ny: "''y'' \<noteq> ''name''" by simp_all
    have ux: "\<forall>(k', p') \<in> set (params example_D). k' \<noteq> ''name'' \<longrightarrow> k' \<noteq> ''x''
                \<longrightarrow> mapping_get (mapping example_D) k' \<noteq> mapping_get (mapping example_D) ''x''"
      and uy: "\<forall>(k', p') \<in> set (params example_D). k' \<noteq> ''name'' \<longrightarrow> k' \<noteq> ''y''
                \<longrightarrow> mapping_get (mapping example_D) k' \<noteq> mapping_get (mapping example_D) ''y''"
      by (simp_all add: recording_defs mapping_get_def)
    have mx: "mapping_get (mapping example_D) ''x'' = PyStr ''posx''"
      and my: "mapping_get (mapping example_D) ''y'' = PyStr ''y''"
      by (simp_all add: recording_defs mapping_get_def)
    from bspec [OF content x]
    have "\<forall>p. (''x'', p) \<in> set (params example_D) \<longrightarrow> ''x'' \<noteq> ''name'' \<longrightarrow>
             (\<forall>(k', p') \<in> set (params example_D). k' \<noteq> ''name'' \<longrightarrow> k' \<noteq> ''x''
                \<longrightarrow> mapping_get (mapping example_D) k' \<noteq> mapping_get (mapping example_D) ''x'') \<longrightarrow>
             map_of (Stream_value st' self') (mapping_get (mapping example_D) ''x'') = Some (PyInt 5)"
      by (simp only: case_prod_conv)
    from this [THEN spec, THEN mp, OF px, THEN mp, OF nx, THEN mp, OF ux]
    have 1: "map_of (Stream_value st' self') (PyStr ''posx'') = Some (PyInt 5)"
      by (simp only: mx)
    from bspec [OF content y]
    have "\<forall>p. (''y'', p) \<in> set (params example_D) \<longrightarrow> ''y'' \<noteq> ''name'' \<longrightarrow>
             (\<forall>(k', p') \<in> set (params example_D). k' \<noteq> ''name'' \<longrightarrow> k' \<noteq> ''y''
                \<longrightarrow> mapping_get (mapping example_D) k' \<noteq> mapping_get (mapping example_D) ''y'') \<longrightarrow>
             map_of (Stream_value st' self') (mapping_get (mapping example_D) ''y'') = Some (PyInt 6)"
      by (simp only: case_prod_conv)
    from this [THEN spec, THEN mp, OF py, THEN mp, OF ny, THEN mp, OF uy]
    have 2: "map_of (Stream_value st' self') (PyStr ''y'') = Some (PyInt 6)"
      by (simp only: my)
    from single have "r = None
       \<and> calls st' = [(7, Stream_value st' self', None)]
       \<and> world st' = [(7, Stream_value st' self')]"
      by (simp add: recording_def recording_state_def module_state_def)
    with 1 2 show ?thesis by simp
  qed
  have bad: "r = Some ValueError \<and> calls st' = [] \<and> world st' = []"
    if up: "Stream_update recording remdups True [(''x'', PyInt 5), (''y'', PyStr ''abc'')]
              example_D recording_state = (r, self', st')" for r self' st'
  proof -
    have kw: "distinct (map fst [(''x'', PyInt 5), (''y'', PyStr ''abc'')])" by simp
    have decl: "\<forall>(k, v) \<in> set [(''x'', PyInt 5), (''y'', PyStr ''abc'')].
                  map_of (params example_D) k \<noteq> None"
      by (simp add: recording_defs)
    have no: "\<not> (\<forall>(k, v) \<in> set [(''x'', PyInt 5), (''y'', PyStr ''abc'')].
                \<forall>p. map_of (params example_D) k = Some p
                  \<longrightarrow> accepts (parameters recording_state p) v)"
      by (simp add: recording_defs is_number_def)
    from update_snapshot_and_single_trigger [OF set_iteration_remdups kw decl wf up,
        THEN conjunct2, THEN mp, OF no]
    show ?thesis by (simp add: recording_state_def module_state_def)
  qed
  obtain r1 s1 st1 where u1: "Stream_update recording remdups True
      [(''x'', PyInt 5), (''y'', PyInt 6)] example_D recording_state = (r1, s1, st1)"
    by (cases "Stream_update recording remdups True [(''x'', PyInt 5), (''y'', PyInt 6)]
                 example_D recording_state")
  obtain r2 s2 st2 where u2: "Stream_update recording remdups True
      [(''x'', PyInt 5), (''y'', PyStr ''abc'')] example_D recording_state = (r2, s2, st2)"
    by (cases "Stream_update recording remdups True [(''x'', PyInt 5), (''y'', PyStr ''abc'')]
                 example_D recording_state")
  from good [OF u1] bad [OF u2] show ?thesis
    by (simp only: u1 u2 case_prod_conv) 
qed

text \<open>
  Claim C1. The claim is that \<^verbatim>\<open>update\<close> restores the constant flag of every field
  whether the assignment succeeds or raises. The code restores the flags after
  \<^verbatim>\<open>set_param\<close> has returned, with no handler around the call: a value that the field
  rejects makes \<^verbatim>\<open>set_param\<close> raise, and the flags stay lifted. Evaluated on a
  \<^verbatim>\<open>PositionX\<close> instance with \<^verbatim>\<open>update(x='abc')\<close>: the call raises, both fields were
  constant before and neither is afterwards, and a direct assignment to \<open>x\<close>, which was
  refused before the call, now goes through.
\<close>

theorem update_failure_leaves_fields_unlocked:
  "case Stream_update quiet remdups True [(''x'', PyStr ''abc'')] example_A example_state of
     (r, self', st') \<Rightarrow>
        r = Some ValueError
      \<and> is_constant (parameters example_state 0) \<and> is_constant (parameters example_state 1)
      \<and> \<not> is_constant (parameters st' 0) \<and> \<not> is_constant (parameters st' 1)
      \<and> setattr example_state example_A ''x'' (PyInt 9) = Inl TypeError
      \<and> setattr st' self' ''x'' (PyInt 9)
          = Inr (self'\<lparr>param_values := AList.update ''x'' (PyInt 9) (param_values self')\<rparr>)"
  by (simp add: Stream_update_def setattr_def set_constant_def is_number_def example_defs)

text \<open>
  Claim C8. A keyword whose name is not a declared field does not make \<^verbatim>\<open>update\<close>
  fail: the generic setter stores it as a plain attribute, the flags are restored, and
  the call goes on to the trigger (or returns, when \<^verbatim>\<open>trigger\<close> is false).
\<close>

theorem update_accepts_unknown_name:
  assumes "k \<notin> fst ` set (params self)" and "k \<notin> set stream_attributes"
  shows "Stream_update c set_iter trigger [(k, v)] self st =
     (if trigger
      then (case Stream_trigger c set_iter [self\<lparr>attrs := AList.update k v (attrs self)\<rparr>] st of
              (r, st') \<Rightarrow> (r, self\<lparr>attrs := AList.update k v (attrs self)\<rparr>, st'))
      else (None, self\<lparr>attrs := AList.update k v (attrs self)\<rparr>, st))"
proof -
  from assms(1) have none: "map_of (params self) k = None"
    by (simp add: map_of_eq_None_iff)
  then have ok: "\<forall>(k, v) \<in> set [(k, v)]. \<forall>p. map_of (params self) k = Some p
                   \<longrightarrow> accepts (parameters st p) v"
    by simp
  have "self\<lparr>param_values := foldl (\<lambda>d (k, v). AList.update k v d) (param_values self)
                                  (filter (declared self) [(k, v)]),
               attrs := foldl (\<lambda>d (k, v). AList.update k v d) (attrs self)
                                  (filter (\<lambda>kv. \<not> declared self kv) [(k, v)])\<rparr>
        = self\<lparr>attrs := AList.update k v (attrs self)\<rparr>"
    using none by (simp add: declared_def)
  with update_success [OF ok, of c set_iter trigger] show ?thesis by simp
qed

theorem update_accepts_unknown_name_witness:
  "Stream_update quiet remdups False [(''z'', PyInt 3)] example_A example_state
     = (None, example_A\<lparr>attrs := [(''z'', PyInt 3)]\<rparr>, example_state)"
proof -
  have 1: "''z'' \<notin> fst ` set (params example_A)"
    by (simp add: example_defs)
  have 2: "''z'' \<notin> set stream_attributes"
    by (simp add: stream_attributes_def)
  from update_accepts_unknown_name [OF 1 2, of quiet remdups False "PyInt 3" example_state]
  show ?thesis by (simp add: example_A_def)
qed

lemma Stream_value_snoc:
  assumes "pre_lists st (preprocessors s) = ps @ [p]"
  shows "Stream_value st s
         = call p (Stream_value (st\<lparr>pre_lists := (pre_lists st)(preprocessors s := ps)\<rparr>) s)"
proof -
  let ?st = "st\<lparr>pre_lists := (pre_lists st)(preprocessors s := ps)\<rparr>"
  have "get_value ?st s = get_value st s"
    by (simp add: get_value_def fun_eq_iff cong: option.case_cong)
  then have "get_param_values ?st s = get_param_values st s"
    by (simp add: get_param_values_def)
  then show ?thesis
    by (simp add: Stream_value_def assms)
qed

lemma Rename_call_distinct:
  assumes "is_dict d" and "inj_on (rename_get m) (fst ` set d)"
  shows "call (Rename m) d = map (\<lambda>(k, v). (rename_get m k, v)) d"
proof -
  have keys: "map fst (map (\<lambda>(k, v). (rename_get m k, v)) d) = map (rename_get m) (map fst d)"
    by (simp add: comp_def case_prod_beta)
  have "distinct (map fst d)" using assms(1) by (simp add: is_dict_def)
  moreover have "inj_on (rename_get m) (set (map fst d))" using assms(2) by simp
  ultimately have "distinct (map (rename_get m) (map fst d))"
    by (simp only: distinct_map)
  then have "distinct (map fst (map (\<lambda>(k, v). (rename_get m k, v)) d))"
    by (simp only: keys)
  then show ?thesis by (simp add: dict_of_distinct)
qed


text \<open>
  Claim C5. The value of a stream is the remapped dictionary with the preprocessors
  applied in the order of the list, each to the result of the one before: with no
  preprocessor it is the remapped dictionary, and with a last preprocessor \<open>p\<close> it is \<open>p\<close>
  applied to the value under the preprocessors before \<open>p\<close>; a last \<^verbatim>\<open>Preprocessor\<close>
  changes nothing and a last \<^verbatim>\<open>Rename\<close> renames the keys. The remapped dictionary has
  the declared fields other than \<^verbatim>\<open>name\<close> under their external keys, the key of a
  field being its entry in \<^verbatim>\<open>mapping\<close> or, without one, its own name; a field whose
  external key no other field shares is found there with its value. Reading the value
  leaves the instance and the state as they were, so a second read gives the same
  dictionary, also when streams have been triggered in between.
\<close>

theorem value_projection:
  fixes st :: "'w state"
  assumes "distinct (map fst (params s))"
  shows "Stream_value st s = fold call (pre_lists st (preprocessors s)) (remapped st s)
    \<and> is_dict (remapped st s)
    \<and> fst ` set (remapped st s) = mapping_get (mapping s) ` (fst ` set (params s) - {''name''})
    \<and> (\<forall>(k, p) \<in> set (params s). k \<noteq> ''name'' \<longrightarrow>
          (\<forall>(k', p') \<in> set (params s). k' \<noteq> ''name'' \<longrightarrow> k' \<noteq> k
             \<longrightarrow> mapping_get (mapping s) k' \<noteq> mapping_get (mapping s) k) \<longrightarrow>
          map_of (remapped st s) (mapping_get (mapping s) k) = Some (get_value st s k p))
    \<and> (\<forall>k. mapping_get (mapping s) k
             = (case map_of (mapping s) k of None \<Rightarrow> PyStr k | Some a \<Rightarrow> a))
    \<and> (pre_lists st (preprocessors s) = [] \<longrightarrow> Stream_value st s = remapped st s)
    \<and> (\<forall>ps p. pre_lists st (preprocessors s) = ps @ [p] \<longrightarrow>
          Stream_value st s
          = call p (Stream_value (st\<lparr>pre_lists := (pre_lists st)(preprocessors s := ps)\<rparr>) s))
    \<and> (\<forall>ps. pre_lists st (preprocessors s) = ps @ [Preprocessor] \<longrightarrow>
          Stream_value st s
          = Stream_value (st\<lparr>pre_lists := (pre_lists st)(preprocessors s := ps)\<rparr>) s)
    \<and> (\<forall>ps m. pre_lists st (preprocessors s) = ps @ [Rename m] \<longrightarrow>
          (\<forall>q \<in> set ps. wf_preprocessor q) \<longrightarrow>
          inj_on (rename_get m)
            (fst ` set (Stream_value (st\<lparr>pre_lists := (pre_lists st)(preprocessors s := ps)\<rparr>) s)) \<longrightarrow>
          Stream_value st s
          = map (\<lambda>(k, v). (rename_get m k, v))
              (Stream_value (st\<lparr>pre_lists := (pre_lists st)(preprocessors s := ps)\<rparr>) s))
    \<and> (\<forall>d s1 st1. Stream_value_read st s = (d, s1, st1) \<longrightarrow>
          s1 = s \<and> st1 = st \<and> Stream_value_read st1 s1 = (d, s1, st1))
    \<and> (\<forall>(c :: 'w subscriber_call) set_iter streams r st'.
          Stream_trigger c set_iter streams st = (r, st') \<longrightarrow>
          Stream_value st' s = Stream_value st s)"
proof -
  have 4: "\<forall>(k, p) \<in> set (params s). k \<noteq> ''name'' \<longrightarrow>
          (\<forall>(k', p') \<in> set (params s). k' \<noteq> ''name'' \<longrightarrow> k' \<noteq> k
             \<longrightarrow> mapping_get (mapping s) k' \<noteq> mapping_get (mapping s) k) \<longrightarrow>
          map_of (remapped st s) (mapping_get (mapping s) k) = Some (get_value st s k p)"
  proof (intro ballI, clarify)
    fix k p
    assume "(k, p) \<in> set (params s)" "k \<noteq> ''name''"
      "\<forall>(k', p') \<in> set (params s). k' \<noteq> ''name'' \<longrightarrow> k' \<noteq> k
             \<longrightarrow> mapping_get (mapping s) k' \<noteq> mapping_get (mapping s) k"
    with assms show "map_of (remapped st s) (mapping_get (mapping s) k) = Some (get_value st s k p)"
      by (rule remapped_lookup)
  qed
  have 5: "\<forall>k. mapping_get (mapping s) k
             = (case map_of (mapping s) k of None \<Rightarrow> PyStr k | Some a \<Rightarrow> a)"
    by (simp add: mapping_get_def split: option.splits)
  have 6: "pre_lists st (preprocessors s) = [] \<longrightarrow> Stream_value st s = remapped st s"
    by (simp add: Stream_value_remapped)
  have 7: "\<forall>ps p. pre_lists st (preprocessors s) = ps @ [p] \<longrightarrow>
          Stream_value st s
          = call p (Stream_value (st\<lparr>pre_lists := (pre_lists st)(preprocessors s := ps)\<rparr>) s)"
    using Stream_value_snoc by blast
  have 8: "\<forall>ps. pre_lists st (preprocessors s) = ps @ [Preprocessor] \<longrightarrow>
          Stream_value st s
          = Stream_value (st\<lparr>pre_lists := (pre_lists st)(preprocessors s := ps)\<rparr>) s"
  proof (intro allI impI)
    fix ps
    assume "pre_lists st (preprocessors s) = ps @ [Preprocessor]"
    from Stream_value_snoc [OF this]
    show "Stream_value st s
          = Stream_value (st\<lparr>pre_lists := (pre_lists st)(preprocessors s := ps)\<rparr>) s"
      by simp
  qed
  have 9: "\<forall>ps m. pre_lists st (preprocessors s) = ps @ [Rename m] \<longrightarrow>
          (\<forall>q \<in> set ps. wf_preprocessor q) \<longrightarrow>
          inj_on (rename_get m)
            (fst ` set (Stream_value (st\<lparr>pre_lists := (pre_lists st)(preprocessors s := ps)\<rparr>) s)) \<longrightarrow>
          Stream_value st s
          = map (\<lambda>(k, v). (rename_get m k, v))
              (Stream_value (st\<lparr>pre_lists := (pre_lists st)(preprocessors s := ps)\<rparr>) s)"
  proof (intro allI impI)
    fix ps m
    let ?st = "st\<lparr>pre_lists := (pre_lists st)(preprocessors s := ps)\<rparr>"
    assume l: "pre_lists st (preprocessors s) = ps @ [Rename m]"
      and w: "\<forall>q \<in> set ps. wf_preprocessor q"
      and i: "inj_on (rename_get m) (fst ` set (Stream_value ?st s))"
    from w have "\<forall>q \<in> set (pre_lists ?st (preprocessors s)). wf_preprocessor q" by simp
    then have "is_dict (Stream_value ?st s)" by (rule is_dict_Stream_value)
    from Rename_call_distinct [OF this i] Stream_value_snoc [OF l]
    show "Stream_value st s = map (\<lambda>(k, v). (rename_get m k, v)) (Stream_value ?st s)"
      by simp
  qed
  have 10: "\<forall>d s1 st1. Stream_value_read st s = (d, s1, st1) \<longrightarrow>
          s1 = s \<and> st1 = st \<and> Stream_value_read st1 s1 = (d, s1, st1)"
    by (auto simp: Stream_value_read_def)
  have 11: "\<forall>(c :: 'w subscriber_call) set_iter streams r st'.
          Stream_trigger c set_iter streams st = (r, st') \<longrightarrow>
          Stream_value st' s = Stream_value st s"
  proof (intro allI impI)
    fix c :: "'w subscriber_call" and set_iter streams r st'
    assume "Stream_trigger c set_iter streams st = (r, st')"
    from Stream_trigger_frame [OF this] show "Stream_value st' s = Stream_value st s"
      by (intro Stream_value_frame) simp_all
  qed
  show ?thesis
    by (intro conjI) (rule Stream_value_remapped, rule remapped_is_dict, rule remapped_keys,
        rule 4, rule 5, rule 6, rule 7, rule 8, rule 9, rule 10, rule 11)
qed

theorem value_projection_witness:
  "Stream_value recording_state example_C = [(PyStr ''b'', PyInt 1), (PyStr ''y'', PyInt 2)]
   \<and> Stream_value
        (recording_state\<lparr>pre_lists := (pre_lists recording_state)
            (preprocessors example_C := [Rename [(''posx'', PyStr ''a'')]])\<rparr>) example_C
       = [(PyStr ''a'', PyInt 1), (PyStr ''y'', PyInt 2)]
   \<and> Stream_value
        (recording_state\<lparr>pre_lists := (pre_lists recording_state)
            (preprocessors example_C := [Rename [(''a'', PyStr ''b'')],
                                         Rename [(''posx'', PyStr ''a'')]])\<rparr>) example_C
       = [(PyStr ''a'', PyInt 1), (PyStr ''y'', PyInt 2)]
   \<and> map_of (remapped recording_state example_C) (PyStr ''posx'') = Some (PyInt 1)
   \<and> Stream_value_read recording_state example_C
       = ([(PyStr ''b'', PyInt 1), (PyStr ''y'', PyInt 2)], example_C, recording_state)"
proof -
  let ?one = "recording_state\<lparr>pre_lists := (pre_lists recording_state)
            (preprocessors example_C := [Rename [(''posx'', PyStr ''a'')]])\<rparr>"
  let ?swapped = "recording_state\<lparr>pre_lists := (pre_lists recording_state)
            (preprocessors example_C := [Rename [(''a'', PyStr ''b'')],
                                         Rename [(''posx'', PyStr ''a'')]])\<rparr>"
  have d: "distinct (map fst (params example_C))" by (simp add: recording_defs)
  have r: "remapped st example_C = [(PyStr ''posx'', PyInt 1), (PyStr ''y'', PyInt 2)]"
    for st :: "(nat \<times> pydict) list state"
    by (simp add: remapped_def get_param_values_def get_value_def mapping_get_def dict_of_def
        recording_defs)
  from value_projection [OF d, of ?one, THEN conjunct1]
  have one: "Stream_value ?one example_C = [(PyStr ''a'', PyInt 1), (PyStr ''y'', PyInt 2)]"
    by (simp add: r dict_of_def)
  from value_projection [OF d, of ?swapped, THEN conjunct1]
  have swapped: "Stream_value ?swapped example_C = [(PyStr ''a'', PyInt 1), (PyStr ''y'', PyInt 2)]"
    by (simp add: r dict_of_def)
  have l: "pre_lists recording_state (preprocessors example_C)
           = [Rename [(''posx'', PyStr ''a'')]] @ [Rename [(''a'', PyStr ''b'')]]"
    by (simp add: recording_defs)
  have w: "\<forall>q \<in> set [Rename [(''posx'', PyStr ''a'')]]. wf_preprocessor q"
    by (simp add: wf_Rename)
  have i: "inj_on (rename_get [(''a'', PyStr ''b'')]) (fst ` set (Stream_value ?one example_C))"
    by (simp add: one)
  note last = value_projection [OF d, of recording_state, THEN conjunct2, THEN conjunct2,
      THEN conjunct2, THEN conjunct2, THEN conjunct2, THEN conjunct2, THEN conjunct2,
      THEN conjunct2, THEN conjunct1, THEN spec, THEN spec, THEN mp, OF l, THEN mp, OF w,
      THEN mp, OF i]
  have full: "Stream_value recording_state example_C = [(PyStr ''b'', PyInt 1), (PyStr ''y'', PyInt 2)]"
    unfolding last one by simp
  have x: "(''x'', 3) \<in> set (params example_C)" by (simp add: recording_defs)
  have n: "''x'' \<noteq> ''name''" by simp
  have u: "\<forall>(k', p') \<in> set (params example_C). k' \<noteq> ''name'' \<longrightarrow> k' \<noteq> ''x''
             \<longrightarrow> mapping_get (mapping example_C) k' \<noteq> mapping_get (mapping example_C) ''x''"
    by (simp add: recording_defs mapping_get_def)
  note look = value_projection [OF d, of recording_state, THEN conjunct2, THEN conjunct2,
      THEN conjunct2, THEN conjunct1]
  from bspec [OF look x]
  have "''x'' \<noteq> ''name'' \<longrightarrow>
          (\<forall>(k', p') \<in> set (params example_C). k' \<noteq> ''name'' \<longrightarrow> k' \<noteq> ''x''
             \<longrightarrow> mapping_get (mapping example_C) k' \<noteq> mapping_get (mapping example_C) ''x'') \<longrightarrow>
        map_of (remapped recording_state example_C) (mapping_get (mapping example_C) ''x'')
        = Some (get_value recording_state example_C ''x'' 3)"
    by (simp only: case_prod_conv)
  from this [THEN mp, OF n, THEN mp, OF u]
  have lookup: "map_of (remapped recording_state example_C) (PyStr ''posx'') = Some (PyInt 1)"
    by (simp add: mapping_get_def get_value_def recording_defs)
  note pure = value_projection [OF d, of recording_state, THEN conjunct2, THEN conjunct2,
      THEN conjunct2, THEN conjunct2, THEN conjunct2, THEN conjunct2, THEN conjunct2,
      THEN conjunct2, THEN conjunct2, THEN conjunct1]
  obtain dd s1 st1 where rd: "Stream_value_read recording_state example_C = (dd, s1, st1)"
    by (cases "Stream_value_read recording_state example_C")
  from pure [THEN spec, THEN spec, THEN spec, THEN mp, OF rd]
  have "s1 = example_C \<and> st1 = recording_state" by simp
  moreover from rd have "dd = Stream_value recording_state example_C"
    by (simp add: Stream_value_read_def)
  ultimately have read: "Stream_value_read recording_state example_C
       = ([(PyStr ''b'', PyInt 1), (PyStr ''y'', PyInt 2)], example_C, recording_state)"
    using rd full by simp
  from full one swapped lookup read show ?thesis by (intro conjI)
qed

section \<open>Rename\<close>

text \<open>
  Claim C9, as stated, fails where two keys of the input receive the same new name: the
  result then has one entry for both, and one of the two values is lost. With
  \<^verbatim>\<open>Rename(x='y')\<close> applied to \<^verbatim>\<open>{'x': 3, 'y': 4}\<close> the result has the single key
  \<open>y\<close>; in either iteration order of the input, one key is not found with its value.
\<close>

theorem Rename_collision_counterexample:
  "call (Rename [(''x'', PyStr ''y'')]) [(PyStr ''x'', PyInt 3), (PyStr ''y'', PyInt 4)]
     = [(PyStr ''y'', PyInt 4)]
   \<and> map_of (call (Rename [(''x'', PyStr ''y'')]) [(PyStr ''x'', PyInt 3), (PyStr ''y'', PyInt 4)])
        (rename_get [(''x'', PyStr ''y'')] (PyStr ''x'')) \<noteq> Some (PyInt 3)
   \<and> call (Rename [(''x'', PyStr ''y'')]) [(PyStr ''y'', PyInt 4), (PyStr ''x'', PyInt 3)]
     = [(PyStr ''y'', PyInt 3)]
   \<and> map_of (call (Rename [(''x'', PyStr ''y'')]) [(PyStr ''y'', PyInt 4), (PyStr ''x'', PyInt 3)])
        (rename_get [(''x'', PyStr ''y'')] (PyStr ''y'')) \<noteq> Some (PyInt 4)"
  by (simp add: dict_of_def)

text \<open>
  Claim C9, amended. When no two keys of the input dictionary receive the same new name,
  \<^verbatim>\<open>Rename\<close> returns the entries of the input in their order, each key replaced by its
  alias when the alias table has it and kept otherwise, each value unchanged. The
  function is pure, so repeating the call gives the same result; the empty dictionary is
  mapped to itself.
\<close>

theorem Rename_call_injective:
  assumes "is_dict kvs" and "inj_on (rename_get m) (fst ` set kvs)"
  shows "call (Rename m) kvs = map (\<lambda>(k, v). (rename_get m k, v)) kvs
     \<and> (\<forall>(k, v) \<in> set kvs. map_of (call (Rename m) kvs) (rename_get m k) = Some v)
     \<and> (\<forall>k. rename_get m (PyStr k) = (case map_of m k of Some a \<Rightarrow> a | None \<Rightarrow> PyStr k))
     \<and> rename_get m PyNone = PyNone \<and> (\<forall>i. rename_get m (PyInt i) = PyInt i)"
proof -
  let ?out = "map (\<lambda>(k, v). (rename_get m k, v)) kvs"
  have keys: "map fst ?out = map (rename_get m) (map fst kvs)"
    by (simp add: comp_def case_prod_beta)
  have "distinct (map fst kvs)" using assms(1) by (simp add: is_dict_def)
  moreover have "inj_on (rename_get m) (set (map fst kvs))" using assms(2) by simp
  ultimately have "distinct (map (rename_get m) (map fst kvs))"
    by (simp only: distinct_map)
  then have d: "distinct (map fst ?out)"
    by (simp only: keys)
  then have 1: "call (Rename m) kvs = ?out"
    by (simp add: dict_of_distinct)
  have 2: "\<forall>(k, v) \<in> set kvs. map_of (call (Rename m) kvs) (rename_get m k) = Some v"
  proof (intro ballI, clarify)
    fix k v
    assume "(k, v) \<in> set kvs"
    then have "(rename_get m k, v) \<in> set ?out" by force
    with d have "map_of ?out (rename_get m k) = Some v" by (rule map_of_is_SomeI)
    then show "map_of (call (Rename m) kvs) (rename_get m k) = Some v"
      by (simp only: 1)
  qed
  from 1 2 show ?thesis by simp
qed

theorem Rename_call_injective_witness:
  "call (Rename [(''x'', PyStr ''posx'')]) [(PyStr ''x'', PyInt 3), (PyStr ''y'', PyInt 4)]
     = [(PyStr ''posx'', PyInt 3), (PyStr ''y'', PyInt 4)]
   \<and> call (Rename [(''x'', PyStr ''posx'')]) [] = []"
proof -
  have 1: "is_dict [(PyStr ''x'', PyInt 3), (PyStr ''y'', PyInt 4)]"
    by (simp add: is_dict_def)
  have 2: "inj_on (rename_get [(''x'', PyStr ''posx'')])
             (fst ` set [(PyStr ''x'', PyInt 3), (PyStr ''y'', PyInt 4)])"
    by simp
  have 3: "is_dict ([] :: pydict)" by (simp add: is_dict_def)
  have 4: "inj_on (rename_get [(''x'', PyStr ''posx'')]) (fst ` set ([] :: pydict))" by simp
  from Rename_call_injective [OF 1 2, THEN conjunct1]
       Rename_call_injective [OF 3 4, THEN conjunct1]
  show ?thesis by simp
qed

section \<open>The constructor\<close>

lemma setattr_fields:
  "setattr st s k v = Inr s' \<Longrightarrow>
     params s' = params s \<and> subscribers s' = subscribers s \<and> preprocessors s' = preprocessors s
     \<and> hidden_subscribers s' = hidden_subscribers s \<and> mapping s' = mapping s
     \<and> initialized s' = initialized s"
  by (auto simp: setattr_def split: option.splits if_splits)

lemma setattr_error: "setattr st s k v = Inl e \<Longrightarrow> e = ValueError \<or> e = TypeError"
  by (auto simp: setattr_def split: option.splits if_splits)

lemma set_param_fields:
  "set_param st s kwargs = (r, s') \<Longrightarrow>
     params s' = params s \<and> subscribers s' = subscribers s \<and> preprocessors s' = preprocessors s
     \<and> hidden_subscribers s' = hidden_subscribers s \<and> mapping s' = mapping s
     \<and> initialized s' = initialized s"
proof (induction kwargs arbitrary: s)
  case Nil
  then show ?case by simp
next
  case (Cons kv kwargs)
  obtain k v where kv: "kv = (k, v)" by (cases kv)
  show ?case
  proof (cases "setattr st s k v")
    case (Inl e)
    with Cons.prems kv show ?thesis by simp
  next
    case (Inr s1)
    with Cons.prems kv have "set_param st s1 kwargs = (r, s')" by simp
    from Cons.IH [OF this] setattr_fields [OF Inr] show ?thesis by simp
  qed
qed

lemma set_param_error:
  "set_param st s kwargs = (Some e, s') \<Longrightarrow> e = ValueError \<or> e = TypeError"
proof (induction kwargs arbitrary: s)
  case Nil
  then show ?case by simp
next
  case (Cons kv kwargs)
  obtain k v where kv: "kv = (k, v)" by (cases kv)
  show ?case
  proof (cases "setattr st s k v")
    case (Inl e')
    with Cons.prems kv have "e' = e" by simp
    with setattr_error [OF Inl] show ?thesis by simp
  next
    case (Inr s1)
    with Cons.prems kv have "set_param st s1 kwargs = (Some e, s')" by simp
    from Cons.IH [OF this] show ?thesis .
  qed
qed

lemma Parameterized_init_fields:
  assumes "Parameterized_init st s name kwargs = Inr s'"
  shows "params s' = params s \<and> subscribers s' = subscribers s \<and> preprocessors s' = preprocessors s
     \<and> hidden_subscribers s' = hidden_subscribers s \<and> mapping s' = mapping s"
proof -
  let ?s1 = "s\<lparr>initialized := False,
               param_values := AList.update ''name'' (PyStr name)
                   (map (\<lambda>(k, p). (k, default_value (parameters st p)))
                      (filter (\<lambda>(k, p). k \<noteq> ''name'') (params s)))\<rparr>"
  obtain r s2 where sp: "set_param st ?s1 kwargs = (r, s2)"
    by (cases "set_param st ?s1 kwargs")
  with assms have "s' = s2\<lparr>initialized := True\<rparr>"
    by (cases r) (simp_all add: Parameterized_init_def Let_def)
  with set_param_fields [OF sp] show ?thesis by simp
qed

lemma Parameterized_init_error:
  assumes "Parameterized_init st s name kwargs = Inl e"
  shows "e = ValueError \<or> e = TypeError"
proof -
  let ?s1 = "s\<lparr>initialized := False,
               param_values := AList.update ''name'' (PyStr name)
                   (map (\<lambda>(k, p). (k, default_value (parameters st p)))
                      (filter (\<lambda>(k, p). k \<noteq> ''name'') (params s)))\<rparr>"
  obtain r s2 where sp: "set_param st ?s1 kwargs = (r, s2)"
    by (cases "set_param st ?s1 kwargs")
  with assms have "r = Some e"
    by (cases r) (simp_all add: Parameterized_init_def Let_def)
  with set_param_error sp show ?thesis by blast
qed

lemma Parameterized_init_success:
  assumes "\<forall>(k, v) \<in> set kwargs. \<forall>p. map_of (params s) k = Some p \<longrightarrow> accepts (parameters st p) v"
  shows "\<exists>s'. Parameterized_init st s name kwargs = Inr s'"
proof -
  let ?s1 = "s\<lparr>initialized := False,
               param_values := AList.update ''name'' (PyStr name)
                   (map (\<lambda>(k, p). (k, default_value (parameters st p)))
                      (filter (\<lambda>(k, p). k \<noteq> ''name'') (params s)))\<rparr>"
  have "\<forall>(k, v) \<in> set kwargs. \<forall>p. map_of (params ?s1) k = Some p \<longrightarrow>
             accepts (parameters st p) v
               \<and> \<not> (is_constant (parameters st p) \<and> initialized ?s1)"
    using assms by simp
  from set_param_success [OF this] show ?thesis
    by (simp add: Parameterized_init_def Let_def)
qed

lemma Stream_init_unfold:
  "Stream_init cls u n m src subs pres kwargs st =
     (case (case m of
                 MValue PyNone \<Rightarrow> Inr []
               | MDict d \<Rightarrow> Inr d
               | MValue v \<Rightarrow>
                   if length (params (init_self cls src subs pres st)) = 2
                   then Inr (dict_of (map (\<lambda>(k, p). (k, v))
                                        (filter (\<lambda>(k, p). k \<noteq> ''name'')
                                           (params (init_self cls src subs pres st)))))
                   else Inl (Exception ''Stream has multiple parameters, please supply a dictionary'')) of
           Inl e \<Rightarrow> (Inl e, init_state st)
         | Inr m' \<Rightarrow>
             (case Parameterized_init (init_state st)
                     ((init_self cls src subs pres st)\<lparr>mapping := m', uuid := u\<rparr>) n kwargs of
                Inl e \<Rightarrow> (Inl e, init_state st)
              | Inr self' \<Rightarrow>
                  (Inr self',
                   (init_state st)\<lparr>registry := (if u \<in> set (registry (init_state st))
                                     then registry (init_state st)
                                     else registry (init_state st) @ [u])\<rparr>)))"
  by (simp only: Stream_init_def Let_def init_state_def init_self_def)

lemma Stream_init_scalar:
  assumes "v \<noteq> PyNone"
  shows "Stream_init cls u n (MValue v) src subs pres kwargs st =
     (if length cls = 2
      then (case Parameterized_init (init_state st)
                     ((init_self cls src subs pres st)
                        \<lparr>mapping := dict_of (map (\<lambda>(k, p). (k, v))
                                        (filter (\<lambda>(k, p). k \<noteq> ''name'') cls)),
                          uuid := u\<rparr>) n kwargs of
                Inl e \<Rightarrow> (Inl e, init_state st)
              | Inr self' \<Rightarrow>
                  (Inr self',
                   (init_state st)\<lparr>registry := (if u \<in> set (registry (init_state st))
                                     then registry (init_state st)
                                     else registry (init_state st) @ [u])\<rparr>))
      else (Inl ambiguous_mapping, init_state st))"
proof -
  have p: "params (init_self cls src subs pres st) = cls" by (simp add: init_self_def)
  show ?thesis
    unfolding Stream_init_unfold p using assms
    by (cases v) (simp_all add: ambiguous_mapping_def)
qed

lemma Stream_init_result:
  assumes "Stream_init cls u n m src subs pres kwargs st = (Inr self, st')"
  shows "params self = cls
     \<and> subscribers self = (case subs of None \<Rightarrow> default_subscribers | Some a \<Rightarrow> a)
     \<and> preprocessors self = (case pres of None \<Rightarrow> default_preprocessors | Some a \<Rightarrow> a)
     \<and> hidden_subscribers self = fresh st
     \<and> parameters st' = parameters st \<and> pre_lists st' = pre_lists st
     \<and> sub_lists st' = (sub_lists st)(fresh st := [])"
proof -
  let ?m = "case m of
                 MValue PyNone \<Rightarrow> Inr []
               | MDict d \<Rightarrow> Inr d
               | MValue v \<Rightarrow>
                   if length (params (init_self cls src subs pres st)) = 2
                   then Inr (dict_of (map (\<lambda>(k, p). (k, v))
                                        (filter (\<lambda>(k, p). k \<noteq> ''name'') (params (init_self cls src subs pres st)))))
                   else Inl (Exception ''Stream has multiple parameters, please supply a dictionary'')"
  note unfold = Stream_init_unfold [of cls u n m src subs pres kwargs st]
  from assms obtain m' where m': "?m = Inr m'"
    unfolding unfold by (cases ?m) simp_all
  from assms m' have p: "Parameterized_init (init_state st)
                     ((init_self cls src subs pres st)\<lparr>mapping := m', uuid := u\<rparr>) n kwargs = Inr self"
    and s: "st' = (init_state st)\<lparr>registry := (if u \<in> set (registry (init_state st))
                                     then registry (init_state st)
                                     else registry (init_state st) @ [u])\<rparr>"
    unfolding unfold by (auto split: sum.splits)
  from Parameterized_init_fields [OF p] s show ?thesis
    by (simp add: init_self_def init_state_def)
qed

lemma two_field_remapped:
  assumes "params s = [(''name'', pn), (k, pk)] \<or> params s = [(k, pk), (''name'', pn)]"
    and "k \<noteq> ''name''" and "mapping s = [(k, v)]"
  shows "remapped st s = [(v, get_value st s k pk)]"
proof -
  have "filter (\<lambda>(k, v). k \<noteq> ''name'') (get_param_values st s)
        = sort_key fst (filter (\<lambda>(k, v). k \<noteq> ''name'')
            (map (\<lambda>(k, p). (k, get_value st s k p)) (params s)))"
    by (simp only: get_param_values_def filter_sort)
  also have "\<dots> = [(k, get_value st s k pk)]"
    using assms(1,2) by auto
  finally show ?thesis
    by (simp add: remapped_def assms(3) mapping_get_def dict_of_def)
qed

text \<open>
  Claim C7. For a \<^verbatim>\<open>mapping\<close> argument that is neither \<open>None\<close> nor a dictionary: on a
  class with more than two fields the constructor raises the configuration error; on a
  class with exactly two fields, \<^verbatim>\<open>name\<close> and one data field, it does not, it returns
  a stream whenever the keyword arguments are acceptable, and the stream it returns maps
  the data field to the scalar, so that without preprocessors its value is the
  dictionary with the scalar as only key and the field value under it.
\<close>

theorem init_scalar_mapping:
  assumes "v \<noteq> PyNone"
  shows "(length cls > 2 \<longrightarrow>
            fst (Stream_init cls u n (MValue v) src subs pres kwargs st) = Inl ambiguous_mapping)
    \<and> (\<forall>k pk pn. k \<noteq> ''name'' \<longrightarrow>
          (cls = [(''name'', pn), (k, pk)] \<or> cls = [(k, pk), (''name'', pn)]) \<longrightarrow>
            fst (Stream_init cls u n (MValue v) src subs pres kwargs st) \<noteq> Inl ambiguous_mapping
          \<and> ((\<forall>(k', v') \<in> set kwargs. \<forall>p. map_of cls k' = Some p \<longrightarrow> accepts (parameters st p) v')
               \<longrightarrow> (\<exists>self st'. Stream_init cls u n (MValue v) src subs pres kwargs st = (Inr self, st')))
          \<and> (\<forall>self st'. Stream_init cls u n (MValue v) src subs pres kwargs st = (Inr self, st')
               \<longrightarrow> mapping self = [(k, v)]
                 \<and> (pre_lists st' (preprocessors self) = []
                      \<longrightarrow> Stream_value st' self = [(v, get_value st' self k pk)])))"
proof -
  note sc = Stream_init_scalar [OF assms, of cls u n src subs pres kwargs st]
  let ?init = "Stream_init cls u n (MValue v) src subs pres kwargs st"
  have 1: "length cls > 2 \<longrightarrow> fst ?init = Inl ambiguous_mapping"
    by (simp add: sc)
  have 2: "fst ?init \<noteq> Inl ambiguous_mapping
          \<and> ((\<forall>(k', v') \<in> set kwargs. \<forall>p. map_of cls k' = Some p \<longrightarrow> accepts (parameters st p) v')
               \<longrightarrow> (\<exists>self st'. ?init = (Inr self, st')))
          \<and> (\<forall>self st'. ?init = (Inr self, st')
               \<longrightarrow> mapping self = [(k, v)]
                 \<and> (pre_lists st' (preprocessors self) = []
                      \<longrightarrow> Stream_value st' self = [(v, get_value st' self k pk)]))"
    if k: "k \<noteq> ''name''"
      and cls: "cls = [(''name'', pn), (k, pk)] \<or> cls = [(k, pk), (''name'', pn)]"
    for k pk pn
  proof -
    let ?s0 = "(init_self cls src subs pres st)
                        \<lparr>mapping := dict_of (map (\<lambda>(k, p). (k, v))
                                        (filter (\<lambda>(k, p). k \<noteq> ''name'') cls)),
                          uuid := u\<rparr>"
    from cls have len: "length cls = 2" by auto
    from cls k have m: "dict_of (map (\<lambda>(k, p). (k, v)) (filter (\<lambda>(k, p). k \<noteq> ''name'') cls)) = [(k, v)]"
      by (auto simp: dict_of_def)
    have a: "fst ?init \<noteq> Inl ambiguous_mapping"
    proof (cases "Parameterized_init (init_state st) ?s0 n kwargs")
      case (Inl e)
      from Parameterized_init_error [OF Inl] have "e \<noteq> ambiguous_mapping"
        by (auto simp: ambiguous_mapping_def)
      with Inl show ?thesis by (simp add: sc len)
    next
      case (Inr s')
      then show ?thesis by (simp add: sc len)
    qed
    have b: "\<exists>self st'. ?init = (Inr self, st')"
      if ok: "\<forall>(k', v') \<in> set kwargs. \<forall>p. map_of cls k' = Some p \<longrightarrow> accepts (parameters st p) v'"
    proof -
      have "\<forall>(k', v') \<in> set kwargs. \<forall>p. map_of (params ?s0) k' = Some p
               \<longrightarrow> accepts (parameters (init_state st) p) v'"
        using ok by (simp add: init_self_def init_state_def)
      from Parameterized_init_success [OF this, of n] obtain s' where
        "Parameterized_init (init_state st) ?s0 n kwargs = Inr s'" by blast
      then show ?thesis by (simp add: sc len)
    qed
    have c: "mapping self = [(k, v)]
                 \<and> (pre_lists st' (preprocessors self) = []
                      \<longrightarrow> Stream_value st' self = [(v, get_value st' self k pk)])"
      if r: "?init = (Inr self, st')" for self st'
    proof -
      from r have p: "Parameterized_init (init_state st) ?s0 n kwargs = Inr self"
        by (simp add: sc len split: sum.splits)
      from Parameterized_init_fields [OF p]
      have f: "params self = cls" "mapping self = [(k, v)]"
        by (simp_all add: init_self_def m)
      from cls f(1) have "params self = [(''name'', pn), (k, pk)] \<or> params self = [(k, pk), (''name'', pn)]"
        by simp
      from two_field_remapped [OF this k f(2)]
      have "remapped st' self = [(v, get_value st' self k pk)]" .
      then show ?thesis by (simp add: f(2) Stream_value_remapped)
    qed
    from a b c show ?thesis by blast
  qed
  from 1 2 show ?thesis by blast
qed

theorem init_scalar_mapping_witness:
  "fst (Stream_init PositionXY ''u1'' ''PositionXY00001'' (MValue (PyStr ''posx'')) PyNone None None []
          (module_state ())) = Inl ambiguous_mapping
   \<and> (\<exists>self st'. Stream_init PositionX ''u2'' ''PositionX00002'' (MValue (PyStr ''posx'')) PyNone
                     None None [] (module_state ()) = (Inr self, st')
         \<and> mapping self = [(''x'', PyStr ''posx'')]
         \<and> Stream_value st' self = [(PyStr ''posx'', get_value st' self ''x'' 1)])"
proof -
  have v: "PyStr ''posx'' \<noteq> PyNone" by simp
  note xy = init_scalar_mapping [OF v, of PositionXY "''u1''" "''PositionXY00001''" PyNone None None "[]"
      "module_state ()", THEN conjunct1, THEN mp]
  have 1: "fst (Stream_init PositionXY ''u1'' ''PositionXY00001'' (MValue (PyStr ''posx'')) PyNone
                  None None [] (module_state ())) = Inl ambiguous_mapping"
    by (rule xy) (simp add: PositionXY_def)
  have n: "''x'' \<noteq> ''name''" by simp
  have c: "PositionX = [(''name'', 0), (''x'', 1)] \<or> PositionX = [(''x'', 1), (''name'', 0)]"
    by (simp add: PositionX_def)
  note x = init_scalar_mapping [OF v, of PositionX "''u2''" "''PositionX00002''" PyNone None None "[]"
      "module_state ()", THEN conjunct2, THEN spec, THEN spec, THEN spec, THEN mp, OF n,
      THEN mp, OF c]
  have ok: "\<forall>(k', v') \<in> set []. \<forall>p. map_of PositionX k' = Some p
              \<longrightarrow> accepts (parameters (module_state ()) p) v'"
    by simp
  from x [THEN conjunct2, THEN conjunct1, THEN mp, OF ok] obtain self st' where
    r: "Stream_init PositionX ''u2'' ''PositionX00002'' (MValue (PyStr ''posx'')) PyNone
          None None [] (module_state ()) = (Inr self, st')"
    by blast
  from Stream_init_result [OF r]
  have p: "pre_lists st' (preprocessors self) = []"
    by (simp add: module_state_def)
  from x [THEN conjunct2, THEN conjunct2, THEN spec, THEN spec, THEN mp, OF r] p
  have "mapping self = [(''x'', PyStr ''posx'')]
         \<and> Stream_value st' self = [(PyStr ''posx'', get_value st' self ''x'' 1)]"
    by blast
  with 1 r show ?thesis by blast
qed





end
